theory Spec2Isabelle
  imports Main "HOL-Library.AList" "HOL-Library.Word"
begin

section \<open>The intermediate representation the pass rewrites\<close>

text \<open>
  \<^verbatim>\<open>InstrumentParallel::runOnFunction\<close> works on LLVM's in-memory IR: a module owns
  global variables and functions, a function owns basic blocks, a block owns
  instructions. Operands and branch targets are pointers in the source. Here every
  instruction and every block carries a number identifying it within its function
  (\<open>i_id\<close>, \<open>b_id\<close>), operands and branch targets hold such numbers, and an object the
  pass creates with \<^verbatim>\<open>new\<close> or a \<^verbatim>\<open>Create\<close> call gets a number that occurs nowhere in
  the function. The textual names (\<open>i_name\<close>, \<open>b_name\<close>) are labels only.
\<close>

datatype binary_ops = Add | Sub

datatype operand =
    ConstantInt "32 word"
  | InstRef nat
  | ArgRef nat

datatype opcode =
    Load string
  | BinaryOperator binary_ops operand operand
  | Store operand string
  | ICmpEQ operand operand
  | Br nat
  | CondBr operand nat nat
  | CallInst string "operand list"
  | ReturnInst "operand option"
  | Unreachable
  | Other string

record instruction =
  i_id :: nat
  i_name :: string
  i_op :: opcode
  i_align :: nat
  i_metadata :: "(string \<times> string) list"
  i_debugloc :: "nat option"

record basic_block =
  b_id :: nat
  b_name :: string
  b_instrs :: "instruction list"

datatype attribute = SanitizeThread | NoUnwind | NoInline | OptimizeNone | UWTable

record llvm_function =
  f_name :: string
  f_params :: "string list"
  f_returns_void :: bool
  f_is_vararg :: bool
  f_attrs :: "attribute list"
  f_blocks :: "basic_block list"

datatype linkage_types = CommonLinkage | ExternalLinkage | InternalLinkage

datatype thread_local_mode = NotThreadLocal | GeneralDynamicTLSModel

datatype llvm_type = Int32Ty

record global_variable =
  g_name :: string
  g_type :: llvm_type
  g_is_constant :: bool
  g_linkage :: linkage_types
  g_initializer :: "32 word option"
  g_tls :: thread_local_mode
  g_addrspace :: nat
  g_ext_init :: bool

record llvm_module =
  m_globals :: "global_variable list"
  m_functions :: "llvm_function list"

datatype error =
    FatalError string
  | UndefinedBehaviour string
  | NotInModule

subsection \<open>The library calls the pass makes\<close>

text \<open>\<^verbatim>\<open>StringRef::startswith\<close> and \<^verbatim>\<open>StringRef::endswith\<close>.\<close>

definition startswith :: "string \<Rightarrow> string \<Rightarrow> bool" where
  "startswith s p = (length p \<le> length s \<and> take (length p) s = p)"

definition endswith :: "string \<Rightarrow> string \<Rightarrow> bool" where
  "endswith s x = (length x \<le> length s \<and> drop (length s - length x) s = x)"

text \<open>\<^verbatim>\<open>Module::getNamedGlobal\<close>: the global variable of that name, or null.\<close>

definition getNamedGlobal :: "llvm_module \<Rightarrow> string \<Rightarrow> global_variable option" where
  "getNamedGlobal M n = find (\<lambda>g. g_name g = n) (m_globals M)"

text \<open>
  \<^verbatim>\<open>BasicBlock::getTerminator\<close>: the last instruction of the block when it is a
  terminator, null otherwise (also for an empty block).
\<close>

fun is_terminator :: "opcode \<Rightarrow> bool" where
  "is_terminator (Br _) = True"
| "is_terminator (CondBr _ _ _) = True"
| "is_terminator (ReturnInst _) = True"
| "is_terminator Unreachable = True"
| "is_terminator _ = False"

definition getTerminator :: "basic_block \<Rightarrow> instruction option" where
  "getTerminator B =
     (case b_instrs B of
        [] \<Rightarrow> None
      | _ # _ \<Rightarrow> if is_terminator (i_op (last (b_instrs B))) then Some (last (b_instrs B)) else None)"

text \<open>A freshly constructed instruction: no alignment, no metadata, no debug location.\<close>

definition newInst :: "nat \<Rightarrow> string \<Rightarrow> opcode \<Rightarrow> instruction" where
  "newInst k n oc =
     \<lparr>i_id = k, i_name = n, i_op = oc, i_align = 0, i_metadata = [], i_debugloc = None\<rparr>"

definition setAlignment :: "instruction \<Rightarrow> nat \<Rightarrow> instruction" where
  "setAlignment Inst a = Inst\<lparr>i_align := a\<rparr>"

definition setDebugLoc :: "instruction \<Rightarrow> nat option \<Rightarrow> instruction" where
  "setDebugLoc Inst d = Inst\<lparr>i_debugloc := d\<rparr>"

text \<open>
  \<^verbatim>\<open>InstrumentParallel::setMetadata\<close> (lines 99-103): attach a metadata node holding
  the description string under the given kind, replacing a node of the same kind.
\<close>

definition setMetadata :: "instruction \<Rightarrow> string \<Rightarrow> string \<Rightarrow> instruction" where
  "setMetadata Inst name description =
     Inst\<lparr>i_metadata := AList.update name description (i_metadata Inst)\<rparr>"

text \<open>Numbers for the objects the pass allocates: above every number in the function.\<close>

fun operand_iids :: "operand \<Rightarrow> nat list" where
  "operand_iids (InstRef k) = [k]"
| "operand_iids _ = []"

fun opcode_iids :: "opcode \<Rightarrow> nat list" where
  "opcode_iids (BinaryOperator _ a b) = operand_iids a @ operand_iids b"
| "opcode_iids (Store v _) = operand_iids v"
| "opcode_iids (ICmpEQ a b) = operand_iids a @ operand_iids b"
| "opcode_iids (CondBr c _ _) = operand_iids c"
| "opcode_iids (CallInst _ as) = concat (map operand_iids as)"
| "opcode_iids (ReturnInst (Some v)) = operand_iids v"
| "opcode_iids _ = []"

fun opcode_bids :: "opcode \<Rightarrow> nat list" where
  "opcode_bids (Br b) = [b]"
| "opcode_bids (CondBr _ t e) = [t, e]"
| "opcode_bids _ = []"

definition instr_iids :: "instruction \<Rightarrow> nat list" where
  "instr_iids I = i_id I # opcode_iids (i_op I)"

definition block_iids :: "basic_block \<Rightarrow> nat list" where
  "block_iids B = concat (map instr_iids (b_instrs B))"

definition block_targets :: "basic_block \<Rightarrow> nat list" where
  "block_targets B = concat (map (\<lambda>I. opcode_bids (i_op I)) (b_instrs B))"

definition fresh :: "nat list \<Rightarrow> nat" where
  "fresh xs = Suc (foldr max xs 0)"

definition fresh_iid :: "llvm_function \<Rightarrow> nat" where
  "fresh_iid F = fresh (concat (map block_iids (f_blocks F)))"

definition fresh_bid :: "llvm_function \<Rightarrow> nat" where
  "fresh_bid F = fresh (concat (map (\<lambda>B. b_id B # block_targets B) (f_blocks F)))"

section \<open>The pass\<close>

definition status_name :: string where
  "status_name = ''__swordomp_status__''"

definition marker :: string where
  "marker = ''SwordRT Instrumentation''"

text \<open>
  Lines 116-122: the global that \<^verbatim>\<open>main\<close> creates (common linkage, initializer Zero,
  general-dynamic TLS), and lines 135-141: the one any other function creates
  (external linkage, null initializer, externally initialized).
\<close>

definition main_status_global :: global_variable where
  "main_status_global =
     \<lparr>g_name = status_name, g_type = Int32Ty, g_is_constant = False,
      g_linkage = CommonLinkage, g_initializer = Some 0,
      g_tls = GeneralDynamicTLSModel, g_addrspace = 0, g_ext_init = False\<rparr>"

definition extern_status_global :: global_variable where
  "extern_status_global =
     \<lparr>g_name = status_name, g_type = Int32Ty, g_is_constant = False,
      g_linkage = ExternalLinkage, g_initializer = None,
      g_tls = GeneralDynamicTLSModel, g_addrspace = 0, g_ext_init = True\<rparr>"

text \<open>
  Lines 144-174, the branch for a name starting with \<^verbatim>\<open>.omp\<close>. \<^verbatim>\<open>front()\<close> of an
  empty block is undefined behaviour in the source. The three increment instructions
  are each inserted before the first instruction of the entry block, so they end up in
  front of it in creation order; the decrement is inserted before the terminator of
  \<^verbatim>\<open>F.back()\<close>, looked up after the increment is in place. The second
  \<^verbatim>\<open>setMetadata\<close> call (line 154) names \<^verbatim>\<open>loadInc\<close> again, and there is no call for
  \<^verbatim>\<open>dec\<close>.
\<close>

definition runOnFunction_omp :: "string \<Rightarrow> llvm_function \<Rightarrow> error + llvm_function" where
  "runOnFunction_omp ompStatusGlobal F =
     (case f_blocks F of
        [] \<Rightarrow> Inl (UndefinedBehaviour ''getEntryBlock of a function without blocks'')
      | entryBB # rest \<Rightarrow>
          (case b_instrs entryBB of
             [] \<Rightarrow> Inl (UndefinedBehaviour ''front of an empty entry block'')
           | entryBBI # _ \<Rightarrow>
               let k = fresh_iid F;
                   loadInc0 = setAlignment (newInst k ''loadIncOmpStatus'' (Load ompStatusGlobal)) 4;
                   loadInc1 = setMetadata loadInc0 ''swordomp.ompstatus'' marker;
                   inc = newInst (k + 1) ''incOmpStatus''
                           (BinaryOperator Add (InstRef k) (ConstantInt 1));
                   loadInc = setMetadata loadInc1 ''swordrt.ompstatus'' marker;
                   storeInc0 = setAlignment
                                 (newInst (k + 2) [] (Store (InstRef (k + 1)) ompStatusGlobal)) 4;
                   storeInc = setMetadata storeInc0 ''swordrt.ompstatus'' marker;
                   entryBB' = entryBB\<lparr>b_instrs := [loadInc, inc, storeInc] @ b_instrs entryBB\<rparr>;
                   blocks1 = entryBB' # rest;
                   exitBB = last blocks1
               in (case getTerminator exitBB of
                     Some exitBBI \<Rightarrow>
                       let loadDec0 = setAlignment
                                        (newInst (k + 3) ''loadDecOmpStatus'' (Load ompStatusGlobal)) 4;
                           loadDec = setMetadata loadDec0 ''swordrt.ompstatus'' marker;
                           dec = newInst (k + 4) ''decOmpStatus''
                                   (BinaryOperator Sub (InstRef (k + 3)) (ConstantInt 1));
                           storeDec0 = setAlignment
                                         (newInst (k + 5) [] (Store (InstRef (k + 4)) ompStatusGlobal)) 4;
                           storeDec = setMetadata storeDec0 ''swordrt.ompstatus'' marker;
                           exitBB' = exitBB\<lparr>b_instrs :=
                                       butlast (b_instrs exitBB) @ [loadDec, dec, storeDec, exitBBI]\<rparr>
                       in Inr (F\<lparr>f_blocks := butlast blocks1 @ [exitBB']\<rparr>)
                   | None \<Rightarrow> Inl (FatalError ''Broken function found, compilation aborted!''))))"

text \<open>
  Lines 179-184: the loop that collects the function's own arguments, first to last.
  An argument is referred to by its position.
\<close>

fun collect_args :: "nat \<Rightarrow> string list \<Rightarrow> operand list" where
  "collect_args n [] = []"
| "collect_args n (a # as) = ArgRef n # collect_args (Suc n) as"

text \<open>
  \<^verbatim>\<open>BasicBlock::splitBasicBlock(I, name)\<close>: the instructions before position \<open>n\<close> stay
  in the block, which gets an unconditional branch to the new block; the new block
  takes the instructions from \<open>n\<close> on and stands right after the old one in the
  function. The library's assertion that the block has a terminator is compiled out
  of a release build and is not modelled.
\<close>

definition splitBasicBlock ::
  "basic_block \<Rightarrow> nat \<Rightarrow> string \<Rightarrow> nat \<Rightarrow> nat \<Rightarrow> basic_block \<times> basic_block" where
  "splitBasicBlock B n name new_bid br_iid =
     (B\<lparr>b_instrs := take n (b_instrs B) @ [newInst br_iid [] (Br new_bid)]\<rparr>,
      \<lparr>b_id = new_bid, b_name = name, b_instrs = drop n (b_instrs B)\<rparr>)"

text \<open>
  Modelled from the spec: \<^verbatim>\<open>CloneFunction\<close> is LLVM's and not among the sources. The spec
  has it duplicate the entire function body, including attributes, parameter list
  and internal control flow, into a new function of the module, a deep and
  independent copy. The numbers of blocks and instructions are local to a function,
  so the copy of the record is that duplicate.
\<close>

definition CloneFunction :: "llvm_function \<Rightarrow> llvm_function" where
  "CloneFunction F = F"

text \<open>
  \<^verbatim>\<open>Value::setName\<close> on a function of a module whose symbol table holds the names
  \<open>taken\<close> (those of its functions and global variables). A name that is not taken
  is set as asked. For one that is taken LLVM appends a number, chosen by a counter
  the symbol table keeps and the IR does not show, until the name is unique; the
  model fixes no more of that choice than this: the name asked for, followed by
  digits, and not taken. (The status flag is created under its own name: a module in
  which a function bears the flag's name lies outside the model.)
\<close>

definition symbol_names :: "llvm_module \<Rightarrow> string list" where
  "symbol_names M = map f_name (m_functions M) @ map g_name (m_globals M)"

definition unique_name :: "string list \<Rightarrow> string \<Rightarrow> string" where
  "unique_name taken n =
     (SOME x. x \<notin> set taken \<and> (\<exists>d. d \<noteq> [] \<and> set d \<subseteq> set ''0123456789'' \<and> x = n @ d))"

definition setName :: "string list \<Rightarrow> string \<Rightarrow> string" where
  "setName taken n = (if n \<in> set taken then unique_name taken n else n)"

text \<open>
  Lines 176-223, the branch for every other name, in a module whose symbol table
  holds the names \<open>taken\<close>. The clone is made before the attribute is removed from
  the original. The call in the new block refers to the clone, whatever name it got;
  the label of the call instruction is the name asked for. The arguments forwarded
  are the function's parameters; a variadic function has no parameter for its
  variable arguments. The result is the rewritten function and the clone.
  \<open>firstEntryBBI\<close> is the address of \<^verbatim>\<open>front()\<close> and so never null; the test of line
  202 reads it twice and never \<open>firstEntryBBDI\<close>, which is dereferenced at lines 217
  and 221.
\<close>

definition runOnFunction_seq ::
  "string list \<Rightarrow> string \<Rightarrow> llvm_function \<Rightarrow> error + (llvm_function \<times> llvm_function)" where
  "runOnFunction_seq taken ompStatusGlobal F =
     (let functionName = f_name F;
          new_function = (CloneFunction F)\<lparr>f_name :=
                           setName taken (functionName @ ''__swordomp__'')\<rparr>;
          args = collect_args 0 (f_params F);
          F1 = F\<lparr>f_attrs := removeAll SanitizeThread (f_attrs F)\<rparr>
      in case f_blocks F1 of
           [] \<Rightarrow> Inl (UndefinedBehaviour ''getEntryBlock of a function without blocks'')
         | entryBB # rest \<Rightarrow>
             let firstEntryBBDI = find (\<lambda>Inst. i_debugloc Inst \<noteq> None) (b_instrs entryBB)
             in (case b_instrs entryBB of
                   [] \<Rightarrow> Inl (UndefinedBehaviour ''front of an empty entry block'')
                 | front # _ \<Rightarrow>
                     let firstEntryBBI = Some front
                     in if firstEntryBBI = None \<or> firstEntryBBI = None
                        then Inl (FatalError ''No instructions with debug information!'')
                        else
                          let k = fresh_iid F1;
                              nb = fresh_bid F1;
                              loadOmpStatus = newInst k ''loadOmpStatus'' (Load ompStatusGlobal);
                              CondInst = newInst (k + 1) ''__swordomp__cond''
                                           (ICmpEQ (InstRef k) (ConstantInt 1));
                              entry1 = entryBB\<lparr>b_instrs :=
                                         [loadOmpStatus, CondInst] @ b_instrs entryBB\<rparr>;
                              (entry2, newEntryBB) =
                                 splitBasicBlock entry1 2 ''__swordomp__entry'' nb (k + 2);
                              entry3 = entry2\<lparr>b_instrs := butlast (b_instrs entry2)\<rparr>;
                              then_bid = nb + 1;
                              entry4 = entry3\<lparr>b_instrs := b_instrs entry3 @
                                         [newInst (k + 3) [] (CondBr (InstRef (k + 1)) then_bid nb)]\<rparr>
                          in (case firstEntryBBDI of
                                None \<Rightarrow> Inl (UndefinedBehaviour ''getDebugLoc through null firstEntryBBDI'')
                              | Some dbg \<Rightarrow>
                                  let swordThenBB =
                                        (if f_returns_void new_function then
                                           \<lparr>b_id = then_bid, b_name = ''__swordomp__if.then'',
                                            b_instrs =
                                              [setDebugLoc
                                                 (newInst (k + 4) []
                                                    (CallInst (f_name new_function) args))
                                                 (i_debugloc dbg),
                                               newInst (k + 5) [] (ReturnInst None)]\<rparr>
                                         else
                                           \<lparr>b_id = then_bid, b_name = ''__swordomp__if.then'',
                                            b_instrs =
                                              [setDebugLoc
                                                 (newInst (k + 4) (functionName @ ''__swordomp__'')
                                                    (CallInst (f_name new_function) args))
                                                 (i_debugloc dbg),
                                               newInst (k + 5) []
                                                 (ReturnInst (Some (InstRef (k + 4))))]\<rparr>)
                                  in Inr (F1\<lparr>f_blocks :=
                                            entry4 # newEntryBB # rest @ [swordThenBB]\<rparr>,
                                          new_function))))"

text \<open>Lines 127-129: the name suffixes of the functions the pass leaves alone.\<close>

definition excluded_name :: "string \<Rightarrow> bool" where
  "excluded_name functionName =
     (endswith functionName ''_dtor'' \<or>
      endswith functionName ''__swordomp__'' \<or>
      endswith functionName ''__clang_call_terminate'')"

text \<open>
  \<^verbatim>\<open>InstrumentParallel::runOnFunction\<close> (lines 105-227) on the function at position
  \<open>i\<close> of the module. A new global variable and the clone are appended to the module's
  lists. A fatal error or undefined behaviour ends the compilation: no module results.
\<close>

definition runOnFunction :: "llvm_module \<Rightarrow> nat \<Rightarrow> error + llvm_module" where
  "runOnFunction M i =
     (if length (m_functions M) \<le> i then Inl NotInModule
      else
        let F = m_functions M ! i;
            functionName = f_name F
        in if functionName = ''main'' then
             (case getNamedGlobal M status_name of
                None \<Rightarrow> Inr (M\<lparr>m_globals := m_globals M @ [main_status_global]\<rparr>)
              | Some g \<Rightarrow> Inr M)
           else if excluded_name functionName then Inr M
           else
             let (M1, ompStatusGlobal) =
                   (case getNamedGlobal M status_name of
                      None \<Rightarrow> (M\<lparr>m_globals := m_globals M @ [extern_status_global]\<rparr>,
                                extern_status_global)
                    | Some g \<Rightarrow> (M, g))
             in if startswith functionName ''.omp'' then
                  (case runOnFunction_omp (g_name ompStatusGlobal) F of
                     Inl e \<Rightarrow> Inl e
                   | Inr F' \<Rightarrow> Inr (M1\<lparr>m_functions := (m_functions M1)[i := F']\<rparr>))
                else
                  (case runOnFunction_seq (symbol_names M1) (g_name ompStatusGlobal) F of
                     Inl e \<Rightarrow> Inl e
                   | Inr (F', new_function) \<Rightarrow>
                       Inr (M1\<lparr>m_functions := (m_functions M1)[i := F'] @ [new_function]\<rparr>)))"

section \<open>Running a function of the fragment\<close>

text \<open>
  The claims about what the rewritten function does when it is invoked need a meaning
  for the instructions. Memory holds one 32-bit value per global variable (the status
  flag among them); registers hold the value an instruction produced, by instruction
  number; reading a register that was never written, or an argument that was not
  passed, is a fault. A call is answered by \<open>callee\<close>, a parameter: from the callee's
  name, the argument values and memory to the returned value and the memory after the
  call, or \<open>None\<close> when the callee does not return. \<open>Other\<close> instructions lie outside
  the fragment and fault. The status flag is thread-local, so the memory is the one
  the invoking thread sees; values are 32 bits wide and arithmetic wraps around.
\<close>

type_synonym memory = "string \<Rightarrow> 32 word"
type_synonym registers = "nat \<Rightarrow> 32 word option"
type_synonym callee_semantics = "string \<Rightarrow> 32 word list \<Rightarrow> memory \<Rightarrow> (32 word \<times> memory) option"

datatype step_result =
    Next registers memory
  | Jump nat registers memory
  | Done "32 word option" memory
  | Bad
  | NoRet

datatype outcome =
    Returned "32 word option" memory
  | Fault
  | CalleeNoReturn

fun eval_operand :: "32 word list \<Rightarrow> registers \<Rightarrow> operand \<Rightarrow> 32 word option" where
  "eval_operand actuals rs (ConstantInt c) = Some c"
| "eval_operand actuals rs (InstRef k) = rs k"
| "eval_operand actuals rs (ArgRef n) = (if n < length actuals then Some (actuals ! n) else None)"

fun eval_operands :: "32 word list \<Rightarrow> registers \<Rightarrow> operand list \<Rightarrow> 32 word list option" where
  "eval_operands actuals rs [] = Some []"
| "eval_operands actuals rs (a # as) =
     (case eval_operand actuals rs a of
        None \<Rightarrow> None
      | Some v \<Rightarrow> (case eval_operands actuals rs as of None \<Rightarrow> None | Some vs \<Rightarrow> Some (v # vs)))"

fun binary_op :: "binary_ops \<Rightarrow> 32 word \<Rightarrow> 32 word \<Rightarrow> 32 word" where
  "binary_op Add x y = x + y"
| "binary_op Sub x y = x - y"

fun exec_op ::
  "callee_semantics \<Rightarrow> 32 word list \<Rightarrow> nat \<Rightarrow> opcode \<Rightarrow> registers \<Rightarrow> memory \<Rightarrow> step_result" where
  "exec_op callee actuals k (Load g) rs m = Next (rs(k \<mapsto> m g)) m"
| "exec_op callee actuals k (BinaryOperator bop a b) rs m =
     (case eval_operand actuals rs a of
        None \<Rightarrow> Bad
      | Some x \<Rightarrow> (case eval_operand actuals rs b of
                     None \<Rightarrow> Bad
                   | Some y \<Rightarrow> Next (rs(k \<mapsto> binary_op bop x y)) m))"
| "exec_op callee actuals k (Store v g) rs m =
     (case eval_operand actuals rs v of None \<Rightarrow> Bad | Some x \<Rightarrow> Next rs (m(g := x)))"
| "exec_op callee actuals k (ICmpEQ a b) rs m =
     (case eval_operand actuals rs a of
        None \<Rightarrow> Bad
      | Some x \<Rightarrow> (case eval_operand actuals rs b of
                     None \<Rightarrow> Bad
                   | Some y \<Rightarrow> Next (rs(k \<mapsto> (if x = y then 1 else 0))) m))"
| "exec_op callee actuals k (Br b) rs m = Jump b rs m"
| "exec_op callee actuals k (CondBr c t e) rs m =
     (case eval_operand actuals rs c of
        None \<Rightarrow> Bad
      | Some x \<Rightarrow> Jump (if x = 0 then e else t) rs m)"
| "exec_op callee actuals k (CallInst f as) rs m =
     (case eval_operands actuals rs as of
        None \<Rightarrow> Bad
      | Some vs \<Rightarrow> (case callee f vs m of
                      None \<Rightarrow> NoRet
                    | Some (r, m') \<Rightarrow> Next (rs(k \<mapsto> r)) m'))"
| "exec_op callee actuals k (ReturnInst None) rs m = Done None m"
| "exec_op callee actuals k (ReturnInst (Some v)) rs m =
     (case eval_operand actuals rs v of None \<Rightarrow> Bad | Some x \<Rightarrow> Done (Some x) m)"
| "exec_op callee actuals k Unreachable rs m = Bad"
| "exec_op callee actuals k (Other s) rs m = Bad"

text \<open>
  One block: its instructions in order up to the first that does not fall through.
  The second component lists the numbers of the instructions executed. Running off
  the end of a block is a fault.
\<close>

fun exec_block ::
  "callee_semantics \<Rightarrow> 32 word list \<Rightarrow> instruction list \<Rightarrow> registers \<Rightarrow> memory
     \<Rightarrow> step_result \<times> nat list" where
  "exec_block callee actuals [] rs m = (Bad, [])"
| "exec_block callee actuals (I # Is) rs m =
     (case exec_op callee actuals (i_id I) (i_op I) rs m of
        Next rs' m' \<Rightarrow>
          (case exec_block callee actuals Is rs' m' of (r, tr) \<Rightarrow> (r, i_id I # tr))
      | r \<Rightarrow> (r, [i_id I]))"

text \<open>
  Blocks in sequence, from the block numbered \<open>b\<close>. Each block entered costs one unit
  of fuel; \<open>None\<close> means the fuel ran out.
\<close>

fun run_from ::
  "callee_semantics \<Rightarrow> 32 word list \<Rightarrow> basic_block list \<Rightarrow> nat \<Rightarrow> nat \<Rightarrow> registers \<Rightarrow> memory
     \<Rightarrow> (outcome \<times> nat list) option" where
  "run_from callee actuals bs 0 b rs m = None"
| "run_from callee actuals bs (Suc n) b rs m =
     (case find (\<lambda>B. b_id B = b) bs of
        None \<Rightarrow> Some (Fault, [])
      | Some B \<Rightarrow>
          (case exec_block callee actuals (b_instrs B) rs m of
             (Jump b' rs' m', tr) \<Rightarrow>
               (case run_from callee actuals bs n b' rs' m' of
                  None \<Rightarrow> None
                | Some (oc, tr') \<Rightarrow> Some (oc, tr @ tr'))
           | (Done v m', tr) \<Rightarrow> Some (Returned v m', tr)
           | (NoRet, tr) \<Rightarrow> Some (CalleeNoReturn, tr)
           | (Next rs' m', tr) \<Rightarrow> Some (Fault, tr)
           | (Bad, tr) \<Rightarrow> Some (Fault, tr)))"

text \<open>An invocation starts at the entry block, the first block of the function.\<close>

definition invoke ::
  "callee_semantics \<Rightarrow> llvm_function \<Rightarrow> 32 word list \<Rightarrow> memory \<Rightarrow> nat
     \<Rightarrow> (outcome \<times> nat list) option" where
  "invoke callee F actuals m fuel =
     (case f_blocks F of
        [] \<Rightarrow> Some (Fault, [])
      | entryBB # _ \<Rightarrow> run_from callee actuals (f_blocks F) fuel (b_id entryBB) Map.empty m)"

section \<open>Notions the properties are stated with\<close>

text \<open>
  The classification the pass makes by name, in the order of its tests: \<^verbatim>\<open>main\<close>
  first, then the excluded suffixes, then the \<^verbatim>\<open>.omp\<close> prefix, then everything else.
\<close>

definition sequential_candidate :: "string \<Rightarrow> bool" where
  "sequential_candidate functionName =
     (functionName \<noteq> ''main'' \<and> \<not> excluded_name functionName \<and>
      \<not> startswith functionName ''.omp'')"

definition parallel_outlined :: "string \<Rightarrow> bool" where
  "parallel_outlined functionName =
     (functionName \<noteq> ''main'' \<and> \<not> excluded_name functionName \<and>
      startswith functionName ''.omp'')"

text \<open>
  The name line 178 asks for is free: no function and no global variable of the
  module bears the name of the function at position \<open>i\<close> with the suffix.
\<close>

definition clone_name_free :: "llvm_module \<Rightarrow> nat \<Rightarrow> bool" where
  "clone_name_free M i =
     (f_name (m_functions M ! i) @ ''__swordomp__'' \<notin> set (symbol_names M))"

text \<open>
  An invocation passes one argument for each parameter, and a variadic function takes
  any number of arguments after those.
\<close>

definition well_formed_call :: "llvm_function \<Rightarrow> 32 word list \<Rightarrow> bool" where
  "well_formed_call F actuals =
     (if f_is_vararg F then length (f_params F) \<le> length actuals
      else length actuals = length (f_params F))"

text \<open>
  The increment and decrement sequences as lines 147-157 and 162-171 leave them,
  for the numbers \<open>k\<close> to \<open>k + 5\<close>.
\<close>

definition inc_seq :: "string \<Rightarrow> nat \<Rightarrow> instruction list" where
  "inc_seq g k =
     [setMetadata (setMetadata (setAlignment (newInst k ''loadIncOmpStatus'' (Load g)) 4)
         ''swordomp.ompstatus'' marker) ''swordrt.ompstatus'' marker,
      newInst (k + 1) ''incOmpStatus'' (BinaryOperator Add (InstRef k) (ConstantInt 1)),
      setMetadata (setAlignment (newInst (k + 2) [] (Store (InstRef (k + 1)) g)) 4)
         ''swordrt.ompstatus'' marker]"

definition dec_seq :: "string \<Rightarrow> nat \<Rightarrow> instruction list" where
  "dec_seq g k =
     [setMetadata (setAlignment (newInst (k + 3) ''loadDecOmpStatus'' (Load g)) 4)
         ''swordrt.ompstatus'' marker,
      newInst (k + 4) ''decOmpStatus'' (BinaryOperator Sub (InstRef (k + 3)) (ConstantInt 1)),
      setMetadata (setAlignment (newInst (k + 5) [] (Store (InstRef (k + 4)) g)) 4)
         ''swordrt.ompstatus'' marker]"


definition status_count :: "llvm_module \<Rightarrow> nat" where
  "status_count M = length (filter (\<lambda>g. g_name g = status_name) (m_globals M))"

text \<open>
  Two conditions on a function's control flow. LLVM requires the first of every
  function: no branch targets the entry block. The second says that the function has
  one exit: its only return instruction is the terminator of its last block.
\<close>

definition entry_has_no_predecessor :: "llvm_function \<Rightarrow> bool" where
  "entry_has_no_predecessor F =
     (b_id (hd (f_blocks F)) \<notin> set (concat (map block_targets (f_blocks F))))"

fun is_return :: "opcode \<Rightarrow> bool" where
  "is_return (ReturnInst _) = True"
| "is_return _ = False"

definition no_return :: "instruction list \<Rightarrow> bool" where
  "no_return Is = list_all (\<lambda>Inst. \<not> is_return (i_op Inst)) Is"

definition single_exit :: "llvm_function \<Rightarrow> bool" where
  "single_exit F =
     (list_all (\<lambda>B. no_return (b_instrs B)) (butlast (f_blocks F)) \<and>
      no_return (butlast (b_instrs (last (f_blocks F)))) \<and>
      is_return (i_op (last (b_instrs (last (f_blocks F))))))"

text \<open>What an invocation shows: the instructions executed, and the flag afterwards.\<close>

definition executed :: "(outcome \<times> nat list) option \<Rightarrow> nat list" where
  "executed r = (case r of None \<Rightarrow> [] | Some (oc, tr) \<Rightarrow> tr)"

definition status_after :: "(outcome \<times> nat list) option \<Rightarrow> 32 word option" where
  "status_after r =
     (case r of Some (Returned v m, tr) \<Rightarrow> Some (m status_name) | _ \<Rightarrow> None)"

text \<open>The same result after some more instructions were executed first.\<close>

definition prepend_trace ::
  "nat list \<Rightarrow> (outcome \<times> nat list) option \<Rightarrow> (outcome \<times> nat list) option" where
  "prepend_trace pre r = (case r of None \<Rightarrow> None | Some (oc, tr) \<Rightarrow> Some (oc, pre @ tr))"

subsection \<open>Auxiliary notions for the proofs\<close>

text \<open>
  A block's instructions without the fault at the end of the list, to speak about a
  prefix of a block; and registers cut down to the numbers below \<open>k\<close>, to compare two
  runs that differ in the registers of inserted instructions only.
\<close>

fun straight ::
  "callee_semantics \<Rightarrow> 32 word list \<Rightarrow> instruction list \<Rightarrow> registers \<Rightarrow> memory
     \<Rightarrow> step_result \<times> nat list" where
  "straight callee actuals [] rs m = (Next rs m, [])"
| "straight callee actuals (I # Is) rs m =
     (case exec_op callee actuals (i_id I) (i_op I) rs m of
        Next rs' m' \<Rightarrow>
          (case straight callee actuals Is rs' m' of (r, tr) \<Rightarrow> (r, i_id I # tr))
      | r \<Rightarrow> (r, [i_id I]))"

definition below :: "nat \<Rightarrow> registers \<Rightarrow> registers" where
  "below k rs = (\<lambda>j. if j < k then rs j else None)"

fun cut_regs :: "nat \<Rightarrow> step_result \<Rightarrow> step_result" where
  "cut_regs k (Next rs m) = Next (below k rs) m"
| "cut_regs k (Jump b rs m) = Jump b (below k rs) m"
| "cut_regs k r = r"

subsection \<open>Concrete functions and modules\<close>

text \<open>
  \<open>ex_seq\<close> is \<^verbatim>\<open>int foo(int a, int b) { return a + b; }\<close> with a debug location on
  the addition, \<open>ex_seq_dispatcher\<close> what the pass makes of it, and \<open>ex_omp\<close> an
  outlined function that only returns.
\<close>

definition ex_seq :: llvm_function where
  "ex_seq =
     \<lparr>f_name = ''foo'', f_params = [''a'', ''b''], f_returns_void = False, f_is_vararg = False,
      f_attrs = [SanitizeThread, NoUnwind],
      f_blocks =
        [\<lparr>b_id = 0, b_name = ''entry'',
          b_instrs =
            [\<lparr>i_id = 0, i_name = ''sum'', i_op = BinaryOperator Add (ArgRef 0) (ArgRef 1),
              i_align = 0, i_metadata = [], i_debugloc = Some 3\<rparr>,
             \<lparr>i_id = 1, i_name = [], i_op = ReturnInst (Some (InstRef 0)),
              i_align = 0, i_metadata = [], i_debugloc = None\<rparr>]\<rparr>]\<rparr>"

definition ex_seq_dispatcher :: llvm_function where
  "ex_seq_dispatcher =
     \<lparr>f_name = ''foo'', f_params = [''a'', ''b''], f_returns_void = False, f_is_vararg = False,
      f_attrs = [NoUnwind],
      f_blocks =
        [\<lparr>b_id = 0, b_name = ''entry'',
          b_instrs =
            [\<lparr>i_id = 2, i_name = ''loadOmpStatus'', i_op = Load ''__swordomp_status__'',
              i_align = 0, i_metadata = [], i_debugloc = None\<rparr>,
             \<lparr>i_id = 3, i_name = ''__swordomp__cond'',
              i_op = ICmpEQ (InstRef 2) (ConstantInt 1),
              i_align = 0, i_metadata = [], i_debugloc = None\<rparr>,
             \<lparr>i_id = 5, i_name = [], i_op = CondBr (InstRef 3) 2 1,
              i_align = 0, i_metadata = [], i_debugloc = None\<rparr>]\<rparr>,
         \<lparr>b_id = 1, b_name = ''__swordomp__entry'',
          b_instrs =
            [\<lparr>i_id = 0, i_name = ''sum'', i_op = BinaryOperator Add (ArgRef 0) (ArgRef 1),
              i_align = 0, i_metadata = [], i_debugloc = Some 3\<rparr>,
             \<lparr>i_id = 1, i_name = [], i_op = ReturnInst (Some (InstRef 0)),
              i_align = 0, i_metadata = [], i_debugloc = None\<rparr>]\<rparr>,
         \<lparr>b_id = 2, b_name = ''__swordomp__if.then'',
          b_instrs =
            [\<lparr>i_id = 6, i_name = ''foo__swordomp__'',
              i_op = CallInst ''foo__swordomp__'' [ArgRef 0, ArgRef 1],
              i_align = 0, i_metadata = [], i_debugloc = Some 3\<rparr>,
             \<lparr>i_id = 7, i_name = [], i_op = ReturnInst (Some (InstRef 6)),
              i_align = 0, i_metadata = [], i_debugloc = None\<rparr>]\<rparr>]\<rparr>"

definition ex_omp :: llvm_function where
  "ex_omp =
     \<lparr>f_name = ''.omp_outlined.'', f_params = [''.global_tid.'', ''.bound_tid.''],
      f_returns_void = True, f_is_vararg = False, f_attrs = [SanitizeThread],
      f_blocks =
        [\<lparr>b_id = 0, b_name = ''entry'',
          b_instrs =
            [\<lparr>i_id = 0, i_name = [], i_op = ReturnInst None,
              i_align = 0, i_metadata = [], i_debugloc = Some 7\<rparr>]\<rparr>]\<rparr>"

definition ex_module :: llvm_module where
  "ex_module = \<lparr>m_globals = [], m_functions = [ex_omp, ex_seq]\<rparr>"

definition ex_module_seq :: llvm_module where
  "ex_module_seq =
     \<lparr>m_globals = [extern_status_global],
      m_functions = [ex_omp, ex_seq_dispatcher, ex_seq\<lparr>f_name := ''foo__swordomp__''\<rparr>]\<rparr>"

text \<open>
  \<open>ex_module_taken\<close> is a module in which the name the clone asks for is taken:
  beside \<^verbatim>\<open>foo\<close> it holds a function \<^verbatim>\<open>foo__swordomp__\<close> already. \<open>ex_variadic\<close> is
  \<^verbatim>\<open>int foo(int a, ...) { return a; }\<close>, and \<open>ex_variadic_dispatcher\<close> what the pass
  makes of it.
\<close>

definition ex_module_taken :: llvm_module where
  "ex_module_taken =
     \<lparr>m_globals = [], m_functions = [ex_seq, ex_seq\<lparr>f_name := ''foo__swordomp__''\<rparr>]\<rparr>"

definition ex_variadic :: llvm_function where
  "ex_variadic =
     \<lparr>f_name = ''foo'', f_params = [''a''], f_returns_void = False, f_is_vararg = True,
      f_attrs = [SanitizeThread],
      f_blocks =
        [\<lparr>b_id = 0, b_name = ''entry'',
          b_instrs =
            [\<lparr>i_id = 0, i_name = [], i_op = ReturnInst (Some (ArgRef 0)),
              i_align = 0, i_metadata = [], i_debugloc = Some 3\<rparr>]\<rparr>]\<rparr>"

definition ex_variadic_dispatcher :: llvm_function where
  "ex_variadic_dispatcher =
     \<lparr>f_name = ''foo'', f_params = [''a''], f_returns_void = False, f_is_vararg = True,
      f_attrs = [],
      f_blocks =
        [\<lparr>b_id = 0, b_name = ''entry'',
          b_instrs =
            [\<lparr>i_id = 1, i_name = ''loadOmpStatus'', i_op = Load ''__swordomp_status__'',
              i_align = 0, i_metadata = [], i_debugloc = None\<rparr>,
             \<lparr>i_id = 2, i_name = ''__swordomp__cond'',
              i_op = ICmpEQ (InstRef 1) (ConstantInt 1),
              i_align = 0, i_metadata = [], i_debugloc = None\<rparr>,
             \<lparr>i_id = 4, i_name = [], i_op = CondBr (InstRef 2) 2 1,
              i_align = 0, i_metadata = [], i_debugloc = None\<rparr>]\<rparr>,
         \<lparr>b_id = 1, b_name = ''__swordomp__entry'',
          b_instrs =
            [\<lparr>i_id = 0, i_name = [], i_op = ReturnInst (Some (ArgRef 0)),
              i_align = 0, i_metadata = [], i_debugloc = Some 3\<rparr>]\<rparr>,
         \<lparr>b_id = 2, b_name = ''__swordomp__if.then'',
          b_instrs =
            [\<lparr>i_id = 5, i_name = ''foo__swordomp__'',
              i_op = CallInst ''foo__swordomp__'' [ArgRef 0],
              i_align = 0, i_metadata = [], i_debugloc = Some 3\<rparr>,
             \<lparr>i_id = 6, i_name = [], i_op = ReturnInst (Some (InstRef 5)),
              i_align = 0, i_metadata = [], i_debugloc = None\<rparr>]\<rparr>]\<rparr>"

definition ex_module_variadic :: llvm_module where
  "ex_module_variadic = \<lparr>m_globals = [], m_functions = [ex_variadic]\<rparr>"





text \<open>
  \<open>ex_nodebug\<close> is a function compiled without debug information;
  \<open>ex_omp_unterminated\<close> and \<open>ex_omp_empty\<close> are outlined functions whose only block
  has no terminator.
\<close>

definition ex_nodebug :: llvm_function where
  "ex_nodebug =
     \<lparr>f_name = ''bar'', f_params = [''a'', ''b''], f_returns_void = False, f_is_vararg = False,
      f_attrs = [SanitizeThread],
      f_blocks =
        [\<lparr>b_id = 0, b_name = ''entry'',
          b_instrs =
            [\<lparr>i_id = 0, i_name = ''sum'', i_op = BinaryOperator Add (ArgRef 0) (ArgRef 1),
              i_align = 0, i_metadata = [], i_debugloc = None\<rparr>,
             \<lparr>i_id = 1, i_name = [], i_op = ReturnInst (Some (InstRef 0)),
              i_align = 0, i_metadata = [], i_debugloc = None\<rparr>]\<rparr>]\<rparr>"

definition ex_module_nodebug :: llvm_module where
  "ex_module_nodebug = \<lparr>m_globals = [], m_functions = [ex_nodebug]\<rparr>"

definition ex_omp_unterminated :: llvm_function where
  "ex_omp_unterminated =
     \<lparr>f_name = ''.omp_outlined.'', f_params = [''.global_tid.'', ''.bound_tid.''],
      f_returns_void = True, f_is_vararg = False, f_attrs = [],
      f_blocks =
        [\<lparr>b_id = 0, b_name = ''entry'',
          b_instrs =
            [\<lparr>i_id = 0, i_name = ''x'', i_op = Load ''x'',
              i_align = 4, i_metadata = [], i_debugloc = Some 5\<rparr>]\<rparr>]\<rparr>"

definition ex_omp_empty :: llvm_function where
  "ex_omp_empty =
     \<lparr>f_name = ''.omp_outlined.'', f_params = [''.global_tid.'', ''.bound_tid.''],
      f_returns_void = True, f_is_vararg = False, f_attrs = [],
      f_blocks = [\<lparr>b_id = 0, b_name = ''entry'', b_instrs = []\<rparr>]\<rparr>"

text \<open>
  A callee that answers only to the clone's name, with the sum of its arguments, and a
  memory in which every global but the status flag is zero.
\<close>

definition ex_callee :: callee_semantics where
  "ex_callee f as m = (if f = ''foo__swordomp__'' then Some (sum_list as, m) else None)"

definition ex_memory :: "32 word \<Rightarrow> memory" where
  "ex_memory flag = (\<lambda>g. if g = status_name then flag else 0)"

text \<open>
  \<open>ex_omp_bracketed\<close> is what the pass makes of \<open>ex_omp\<close>. \<open>ex_omp_two_exits\<close> is an
  outlined function that returns early when its first argument is zero, and
  \<open>ex_omp_dtor\<close> one whose name also ends in an excluded suffix.
\<close>

definition ex_omp_bracketed :: llvm_function where
  "ex_omp_bracketed =
     ex_omp\<lparr>f_blocks :=
       [\<lparr>b_id = 0, b_name = ''entry'',
         b_instrs = inc_seq status_name 1 @ dec_seq status_name 1 @
           [\<lparr>i_id = 0, i_name = [], i_op = ReturnInst None,
             i_align = 0, i_metadata = [], i_debugloc = Some 7\<rparr>]\<rparr>]\<rparr>"

definition ex_omp_two_exits :: llvm_function where
  "ex_omp_two_exits =
     \<lparr>f_name = ''.omp_outlined.'', f_params = [''.global_tid.'', ''.bound_tid.''],
      f_returns_void = True, f_is_vararg = False, f_attrs = [SanitizeThread],
      f_blocks =
        [\<lparr>b_id = 0, b_name = ''entry'',
          b_instrs =
            [\<lparr>i_id = 0, i_name = ''cmp'', i_op = ICmpEQ (ArgRef 0) (ConstantInt 0),
              i_align = 0, i_metadata = [], i_debugloc = Some 4\<rparr>,
             \<lparr>i_id = 1, i_name = [], i_op = CondBr (InstRef 0) 1 2,
              i_align = 0, i_metadata = [], i_debugloc = Some 4\<rparr>]\<rparr>,
         \<lparr>b_id = 1, b_name = ''if.then'',
          b_instrs =
            [\<lparr>i_id = 2, i_name = [], i_op = ReturnInst None,
              i_align = 0, i_metadata = [], i_debugloc = Some 5\<rparr>]\<rparr>,
         \<lparr>b_id = 2, b_name = ''if.end'',
          b_instrs =
            [\<lparr>i_id = 3, i_name = ''x'', i_op = Load ''x'',
              i_align = 4, i_metadata = [], i_debugloc = Some 6\<rparr>,
             \<lparr>i_id = 4, i_name = [], i_op = ReturnInst None,
              i_align = 0, i_metadata = [], i_debugloc = Some 7\<rparr>]\<rparr>]\<rparr>"

definition ex_omp_dtor :: llvm_function where
  "ex_omp_dtor = ex_omp\<lparr>f_name := ''.omp_outlined._dtor''\<rparr>"

section \<open>Properties\<close>

subsection \<open>What a successful run returns\<close>

lemma excluded_not_main: "excluded_name n \<Longrightarrow> n \<noteq> ''main''"
  by (auto simp: excluded_name_def endswith_def)

lemma getNamedGlobal_name: "getNamedGlobal M n = Some g \<Longrightarrow> g_name g = n"
  by (auto simp: getNamedGlobal_def find_Some_iff)

lemma extern_status_global_name [simp]: "g_name extern_status_global = status_name"
  by (simp add: extern_status_global_def)

lemma main_status_global_name [simp]: "g_name main_status_global = status_name"
  by (simp add: main_status_global_def)

lemma seq_Inr:
  assumes "runOnFunction_seq taken g F = Inr (F', c)"
  shows "c = F\<lparr>f_name := setName taken (f_name F @ ''__swordomp__'')\<rparr>"
    and "f_blocks F \<noteq> []"
    and "b_instrs (hd (f_blocks F)) \<noteq> []"
    and "find (\<lambda>Inst. i_debugloc Inst \<noteq> None) (b_instrs (hd (f_blocks F))) \<noteq> None"
    and "F' = F\<lparr>f_attrs := removeAll SanitizeThread (f_attrs F),
             f_blocks :=
               (hd (f_blocks F))\<lparr>b_instrs :=
                  [newInst (fresh_iid F) ''loadOmpStatus'' (Load g),
                   newInst (fresh_iid F + 1) ''__swordomp__cond''
                     (ICmpEQ (InstRef (fresh_iid F)) (ConstantInt 1)),
                   newInst (fresh_iid F + 3) []
                     (CondBr (InstRef (fresh_iid F + 1)) (fresh_bid F + 1) (fresh_bid F))]\<rparr>
               # \<lparr>b_id = fresh_bid F, b_name = ''__swordomp__entry'',
                    b_instrs = b_instrs (hd (f_blocks F))\<rparr>
               # tl (f_blocks F)
               @ [\<lparr>b_id = fresh_bid F + 1, b_name = ''__swordomp__if.then'',
                    b_instrs =
                      [setDebugLoc
                         (newInst (fresh_iid F + 4)
                            (if f_returns_void F then [] else f_name F @ ''__swordomp__'')
                            (CallInst (setName taken (f_name F @ ''__swordomp__''))
                               (collect_args 0 (f_params F))))
                         (i_debugloc (the (find (\<lambda>Inst. i_debugloc Inst \<noteq> None)
                                              (b_instrs (hd (f_blocks F)))))),
                       newInst (fresh_iid F + 5) []
                         (ReturnInst (if f_returns_void F then None
                                      else Some (InstRef (fresh_iid F + 4))))]\<rparr>]\<rparr>"
  using assms
  by (auto simp: runOnFunction_seq_def CloneFunction_def Let_def splitBasicBlock_def
                 fresh_iid_def fresh_bid_def
           split: list.splits option.splits if_splits)

lemma omp_Inr:
  assumes "runOnFunction_omp g F = Inr F'"
  shows "f_blocks F \<noteq> []"
    and "b_instrs (hd (f_blocks F)) \<noteq> []"
    and "b_instrs (last (f_blocks F)) \<noteq> []"
    and "is_terminator (i_op (last (b_instrs (last (f_blocks F)))))"
    and "tl (f_blocks F) = [] \<Longrightarrow>
           F' = F\<lparr>f_blocks :=
                  [(hd (f_blocks F))\<lparr>b_instrs :=
                      inc_seq g (fresh_iid F) @ butlast (b_instrs (hd (f_blocks F)))
                      @ dec_seq g (fresh_iid F) @ [last (b_instrs (hd (f_blocks F)))]\<rparr>]\<rparr>"
    and "tl (f_blocks F) \<noteq> [] \<Longrightarrow>
           F' = F\<lparr>f_blocks :=
                  (hd (f_blocks F))\<lparr>b_instrs :=
                      inc_seq g (fresh_iid F) @ b_instrs (hd (f_blocks F))\<rparr>
                  # butlast (tl (f_blocks F))
                  @ [(last (f_blocks F))\<lparr>b_instrs :=
                        butlast (b_instrs (last (f_blocks F)))
                        @ dec_seq g (fresh_iid F) @ [last (b_instrs (last (f_blocks F)))]\<rparr>]\<rparr>"
  using assms
  by (auto simp: runOnFunction_omp_def Let_def getTerminator_def inc_seq_def dec_seq_def
           split: list.splits option.splits if_splits)


lemma seq_name: "runOnFunction_seq taken g F = Inr (F', c) \<Longrightarrow> f_name F' = f_name F"
  by (auto dest: seq_Inr(5))

lemma unique_name_spec:
  "unique_name taken n \<notin> set taken \<and>
   (\<exists>d. d \<noteq> [] \<and> set d \<subseteq> set ''0123456789'' \<and> unique_name taken n = n @ d)"
proof -
  define L where "L = Suc (sum_list (map length taken))"
  have short: "length y < L" if "y \<in> set taken" for y
    using member_le_sum_list[of "length y" "map length taken"] that
    by (simp add: L_def less_Suc_eq_le)
  have "n @ replicate L CHR ''1'' \<notin> set taken"
    using short[of "n @ replicate L CHR ''1''"] by auto
  moreover have "replicate L CHR ''1'' \<noteq> []"
    by (simp add: L_def)
  moreover have "set (replicate L CHR ''1'') \<subseteq> set ''0123456789''"
    by auto
  ultimately have
    "\<exists>x. x \<notin> set taken \<and> (\<exists>d. d \<noteq> [] \<and> set d \<subseteq> set ''0123456789'' \<and> x = n @ d)"
    by blast
  then show ?thesis
    unfolding unique_name_def by (rule someI_ex)
qed

lemma setName_free: "n \<notin> set taken \<Longrightarrow> setName taken n = n"
  by (simp add: setName_def)

lemma setName_fresh: "setName taken n \<notin> set taken"
  using unique_name_spec[of taken n] by (simp add: setName_def)

lemma setName_taken:
  assumes "n \<in> set taken"
  shows "\<exists>d. d \<noteq> [] \<and> set d \<subseteq> set ''0123456789'' \<and> setName taken n = n @ d"
  using unique_name_spec[of taken n] assms by (simp add: setName_def)

lemma suffix_not_status: "n @ ''__swordomp__'' \<noteq> status_name"
proof
  assume "n @ ''__swordomp__'' = status_name"
  then have "rev (n @ ''__swordomp__'') ! 2 = rev status_name ! 2" by simp
  then show False by (simp add: status_name_def)
qed

lemma clone_name_free_setName:
  assumes "clone_name_free M i"
      and "set taken = insert status_name (set (symbol_names M))"
  shows "setName taken (f_name (m_functions M ! i) @ ''__swordomp__'') =
           f_name (m_functions M ! i) @ ''__swordomp__''"
  using assms suffix_not_status[of "f_name (m_functions M ! i)"]
  by (intro setName_free) (simp add: clone_name_free_def)



lemma runOnFunction_cases:
  assumes "runOnFunction M i = Inr M'"
  shows "i < length (m_functions M)"
    and "f_name (m_functions M ! i) = ''main'' \<Longrightarrow>
           m_functions M' = m_functions M \<and>
           m_globals M' = (case getNamedGlobal M status_name of
                             None \<Rightarrow> m_globals M @ [main_status_global]
                           | Some g \<Rightarrow> m_globals M)"
    and "excluded_name (f_name (m_functions M ! i)) \<Longrightarrow> M' = M"
    and "f_name (m_functions M ! i) \<noteq> ''main'' \<Longrightarrow>
         \<not> excluded_name (f_name (m_functions M ! i)) \<Longrightarrow>
           m_globals M' = (case getNamedGlobal M status_name of
                             None \<Rightarrow> m_globals M @ [extern_status_global]
                           | Some g \<Rightarrow> m_globals M)"
    and "parallel_outlined (f_name (m_functions M ! i)) \<Longrightarrow>
           \<exists>F'. runOnFunction_omp status_name (m_functions M ! i) = Inr F' \<and>
                m_functions M' = (m_functions M)[i := F']"
    and "sequential_candidate (f_name (m_functions M ! i)) \<Longrightarrow>
           \<exists>F' c taken. runOnFunction_seq taken status_name (m_functions M ! i) = Inr (F', c) \<and>
                set taken = insert status_name (set (symbol_names M)) \<and>
                m_functions M' = (m_functions M)[i := F'] @ [c]"
proof -
  show "i < length (m_functions M)"
    and "f_name (m_functions M ! i) = ''main'' \<Longrightarrow>
           m_functions M' = m_functions M \<and>
           m_globals M' = (case getNamedGlobal M status_name of
                             None \<Rightarrow> m_globals M @ [main_status_global]
                           | Some g \<Rightarrow> m_globals M)"
    and "excluded_name (f_name (m_functions M ! i)) \<Longrightarrow> M' = M"
    and "f_name (m_functions M ! i) \<noteq> ''main'' \<Longrightarrow>
         \<not> excluded_name (f_name (m_functions M ! i)) \<Longrightarrow>
           m_globals M' = (case getNamedGlobal M status_name of
                             None \<Rightarrow> m_globals M @ [extern_status_global]
                           | Some g \<Rightarrow> m_globals M)"
    and "parallel_outlined (f_name (m_functions M ! i)) \<Longrightarrow>
           \<exists>F'. runOnFunction_omp status_name (m_functions M ! i) = Inr F' \<and>
                m_functions M' = (m_functions M)[i := F']"
    using assms
    by (auto simp: runOnFunction_def Let_def getNamedGlobal_name excluded_not_main
                   parallel_outlined_def sequential_candidate_def
             split: if_splits option.splits sum.splits prod.splits)
  assume s: "sequential_candidate (f_name (m_functions M ! i))"
  show "\<exists>F' c taken. runOnFunction_seq taken status_name (m_functions M ! i) = Inr (F', c) \<and>
                set taken = insert status_name (set (symbol_names M)) \<and>
                m_functions M' = (m_functions M)[i := F'] @ [c]"
  proof (cases "getNamedGlobal M status_name")
    case None
    define M1 where "M1 = M\<lparr>m_globals := m_globals M @ [extern_status_global]\<rparr>"
    obtain F' c where "runOnFunction_seq (symbol_names M1) status_name (m_functions M ! i) =
                         Inr (F', c)"
      and "m_functions M' = (m_functions M)[i := F'] @ [c]"
      using assms s None unfolding M1_def
      by (auto simp: runOnFunction_def Let_def excluded_not_main sequential_candidate_def
               split: if_splits sum.splits prod.splits)
    moreover have "set (symbol_names M1) = insert status_name (set (symbol_names M))"
      by (auto simp: M1_def symbol_names_def)
    ultimately show ?thesis by blast
  next
    case (Some g)
    then have g: "g \<in> set (m_globals M)" and n: "g_name g = status_name"
      by (auto simp: getNamedGlobal_def find_Some_iff)
    have "g_name g \<in> set (symbol_names M)"
      using g by (simp add: symbol_names_def)
    then have "status_name \<in> set (symbol_names M)"
      using n by simp
    then have "set (symbol_names M) = insert status_name (set (symbol_names M))"
      by auto
    moreover obtain F' c where
      "runOnFunction_seq (symbol_names M) status_name (m_functions M ! i) = Inr (F', c)"
      and "m_functions M' = (m_functions M)[i := F'] @ [c]"
      using assms s Some
      by (auto simp: runOnFunction_def Let_def excluded_not_main sequential_candidate_def
                     getNamedGlobal_name
               split: if_splits sum.splits prod.splits)
    ultimately show ?thesis by blast
  qed
qed





subsection \<open>Evaluating the concrete examples\<close>

lemmas ex_eval =
  runOnFunction_def runOnFunction_seq_def runOnFunction_omp_def Let_def
  CloneFunction_def setName_def symbol_names_def
  excluded_name_def endswith_def startswith_def getNamedGlobal_def getTerminator_def
  splitBasicBlock_def newInst_def setDebugLoc_def setAlignment_def setMetadata_def
  fresh_iid_def fresh_bid_def fresh_def block_iids_def instr_iids_def block_targets_def
  extern_status_global_def main_status_global_def status_name_def marker_def
  status_count_def

lemma ex_run_seq: "runOnFunction ex_module 1 = Inr ex_module_seq"
  by (simp add: runOnFunction_def ex_module_def ex_module_seq_def ex_seq_def ex_omp_def
        ex_seq_dispatcher_def excluded_name_def endswith_def startswith_def getNamedGlobal_def
        runOnFunction_seq_def CloneFunction_def setName_def symbol_names_def Let_def
        splitBasicBlock_def newInst_def setDebugLoc_def
        fresh_iid_def fresh_bid_def fresh_def block_iids_def instr_iids_def block_targets_def
        extern_status_global_def status_name_def)

lemma ex_seq_candidate: "sequential_candidate (f_name (m_functions ex_module ! 1))"
  by (simp add: ex_module_def ex_seq_def sequential_candidate_def excluded_name_def
        endswith_def startswith_def)

subsection \<open>Facts about running a function\<close>

subsubsection \<open>Fresh numbers\<close>

lemma fresh_gt: "x \<in> set xs \<Longrightarrow> x < fresh xs"
  unfolding fresh_def by (induction xs) (auto simp: less_Suc_eq_le max_def)

lemma fresh_bid_gt: "B \<in> set (f_blocks F) \<Longrightarrow> b_id B < fresh_bid F"
  unfolding fresh_bid_def by (rule fresh_gt) auto

lemma fresh_bid_target:
  "B \<in> set (f_blocks F) \<Longrightarrow> b \<in> set (block_targets B) \<Longrightarrow> b < fresh_bid F"
  unfolding fresh_bid_def by (rule fresh_gt) auto

lemma fresh_iid_gt:
  "B \<in> set (f_blocks F) \<Longrightarrow> Inst \<in> set (b_instrs B) \<Longrightarrow> x \<in> set (instr_iids Inst)
     \<Longrightarrow> x < fresh_iid F"
  unfolding fresh_iid_def block_iids_def by (rule fresh_gt) auto

lemma find_append_skip: "\<forall>x \<in> set xs. \<not> P x \<Longrightarrow> find P (xs @ ys) = find P ys"
  by (induction xs) auto

subsubsection \<open>Arguments\<close>

lemma eval_collect_args:
  "n + length ps \<le> length actuals \<Longrightarrow>
     eval_operands actuals rs (collect_args n ps) = Some (take (length ps) (drop n actuals))"
proof (induction ps arbitrary: n)
  case Nil
  then show ?case by simp
next
  case (Cons p ps)
  then have "eval_operands actuals rs (collect_args (Suc n) ps) =
               Some (take (length ps) (drop (Suc n) actuals))"
    by simp
  moreover have "n < length actuals" using Cons.prems by simp
  ultimately show ?case
    by (simp add: take_Suc_conv_app_nth Cons_nth_drop_Suc[symmetric])
qed

lemma eval_all_args:
  "length actuals = length ps \<Longrightarrow> eval_operands actuals rs (collect_args 0 ps) = Some actuals"
  using eval_collect_args[of 0 ps actuals rs] by simp

lemma seq_blocks:
  assumes "runOnFunction_seq taken g F = Inr (F', c)"
  shows "f_blocks F' =
           (hd (f_blocks F))\<lparr>b_instrs :=
                  [newInst (fresh_iid F) ''loadOmpStatus'' (Load g),
                   newInst (fresh_iid F + 1) ''__swordomp__cond''
                     (ICmpEQ (InstRef (fresh_iid F)) (ConstantInt 1)),
                   newInst (fresh_iid F + 3) []
                     (CondBr (InstRef (fresh_iid F + 1)) (fresh_bid F + 1) (fresh_bid F))]\<rparr>
               # \<lparr>b_id = fresh_bid F, b_name = ''__swordomp__entry'',
                    b_instrs = b_instrs (hd (f_blocks F))\<rparr>
               # tl (f_blocks F)
               @ [\<lparr>b_id = fresh_bid F + 1, b_name = ''__swordomp__if.then'',
                    b_instrs =
                      [setDebugLoc
                         (newInst (fresh_iid F + 4)
                            (if f_returns_void F then [] else f_name F @ ''__swordomp__'')
                            (CallInst (setName taken (f_name F @ ''__swordomp__''))
                               (collect_args 0 (f_params F))))
                         (i_debugloc (the (find (\<lambda>Inst. i_debugloc Inst \<noteq> None)
                                              (b_instrs (hd (f_blocks F)))))),
                       newInst (fresh_iid F + 5) []
                         (ReturnInst (if f_returns_void F then None
                                      else Some (InstRef (fresh_iid F + 4))))]\<rparr>]"
  using seq_Inr(5)[OF assms] by simp

lemma run_from_jump:
  "find (\<lambda>B. b_id B = b) bs = Some B \<Longrightarrow>
   exec_block callee actuals (b_instrs B) rs m = (Jump b' rs' m', tr) \<Longrightarrow>
   run_from callee actuals bs (Suc n) b rs m =
     (case run_from callee actuals bs n b' rs' m' of
        None \<Rightarrow> None
      | Some (oc, tr') \<Rightarrow> Some (oc, tr @ tr'))"
  by simp

lemma run_from_done:
  "find (\<lambda>B. b_id B = b) bs = Some B \<Longrightarrow>
   exec_block callee actuals (b_instrs B) rs m = (Done v m', tr) \<Longrightarrow>
   run_from callee actuals bs (Suc n) b rs m = Some (Returned v m', tr)"
  by simp

lemma run_from_noret:
  "find (\<lambda>B. b_id B = b) bs = Some B \<Longrightarrow>
   exec_block callee actuals (b_instrs B) rs m = (NoRet, tr) \<Longrightarrow>
   run_from callee actuals bs (Suc n) b rs m = Some (CalleeNoReturn, tr)"
  by simp

subsubsection \<open>Runs that differ in the registers of inserted instructions\<close>

lemma below_upd_lt [simp]: "j < k \<Longrightarrow> below k (rs(j \<mapsto> v)) = (below k rs)(j \<mapsto> v)"
  by (auto simp: below_def)

lemma below_upd_ge [simp]: "k \<le> j \<Longrightarrow> below k (rs(j \<mapsto> v)) = below k rs"
  by (auto simp: below_def)

lemma below_empty [simp]: "below k Map.empty = Map.empty"
  by (simp add: below_def)

lemma below_eq_lookup: "below k rs' = below k rs \<Longrightarrow> j < k \<Longrightarrow> rs' j = rs j"
  by (metis below_def)

lemma eval_operand_below:
  assumes "below k rs' = below k rs" and "\<forall>x \<in> set (operand_iids a). x < k"
  shows "eval_operand actuals rs' a = eval_operand actuals rs a"
  using assms by (cases a) (auto dest: below_eq_lookup)

lemma eval_operands_below:
  assumes "below k rs' = below k rs" and "\<forall>x \<in> set (concat (map operand_iids as)). x < k"
  shows "eval_operands actuals rs' as = eval_operands actuals rs as"
  using assms
proof (induction as)
  case Nil
  then show ?case by simp
next
  case (Cons a as)
  then have "eval_operand actuals rs' a = eval_operand actuals rs a"
    by (intro eval_operand_below) auto
  moreover have "eval_operands actuals rs' as = eval_operands actuals rs as"
    using Cons by auto
  ultimately show ?case by (simp split: option.splits)
qed

lemma exec_op_below:
  assumes "below k rs' = below k rs" and "i < k" and "\<forall>x \<in> set (opcode_iids oc). x < k"
  shows "cut_regs k (exec_op callee actuals i oc rs' m) = cut_regs k (exec_op callee actuals i oc rs m)"
proof (cases oc)
  case (Load g)
  then show ?thesis using assms by simp
next
  case (BinaryOperator bop a b)
  then have "eval_operand actuals rs' a = eval_operand actuals rs a"
        and "eval_operand actuals rs' b = eval_operand actuals rs b"
    using assms by (auto intro!: eval_operand_below)
  then show ?thesis using assms BinaryOperator by (simp split: option.splits)
next
  case (Store v g)
  then have "eval_operand actuals rs' v = eval_operand actuals rs v"
    using assms by (auto intro!: eval_operand_below)
  then show ?thesis using assms Store by (simp split: option.splits)
next
  case (ICmpEQ a b)
  then have "eval_operand actuals rs' a = eval_operand actuals rs a"
        and "eval_operand actuals rs' b = eval_operand actuals rs b"
    using assms by (auto intro!: eval_operand_below)
  then show ?thesis using assms ICmpEQ by (simp split: option.splits)
next
  case (Br b)
  then show ?thesis using assms by simp
next
  case (CondBr c t e)
  then have "eval_operand actuals rs' c = eval_operand actuals rs c"
    using assms by (auto intro!: eval_operand_below)
  then show ?thesis using assms CondBr by (simp split: option.splits)
next
  case (CallInst f as)
  then have "eval_operands actuals rs' as = eval_operands actuals rs as"
    using assms by (auto intro!: eval_operands_below)
  then show ?thesis using assms CallInst by (simp split: option.splits prod.splits)
next
  case (ReturnInst v)
  show ?thesis
  proof (cases v)
    case None
    then show ?thesis using ReturnInst by simp
  next
    case (Some a)
    then have "eval_operand actuals rs' a = eval_operand actuals rs a"
      using assms ReturnInst by (auto intro!: eval_operand_below)
    then show ?thesis using ReturnInst Some by (simp split: option.splits)
  qed
next
  case Unreachable
  then show ?thesis by simp
next
  case (Other s)
  then show ?thesis by simp
qed

lemma cut_Next: "cut_regs k r' = cut_regs k r \<Longrightarrow> r = Next rs m \<Longrightarrow>
   \<exists>rs'. r' = Next rs' m \<and> below k rs' = below k rs"
  by (cases r') auto

lemma cut_other: "cut_regs k r' = cut_regs k r \<Longrightarrow> (\<forall>rs m. r \<noteq> Next rs m) \<Longrightarrow> (\<forall>rs m. r' \<noteq> Next rs m)"
  by (cases r'; cases r) auto

lemma exec_block_below:
  assumes "below k rs' = below k rs"
      and "\<forall>Inst \<in> set Is. \<forall>x \<in> set (instr_iids Inst). x < k"
  shows "cut_regs k (fst (exec_block callee actuals Is rs' m)) =
           cut_regs k (fst (exec_block callee actuals Is rs m))
       \<and> snd (exec_block callee actuals Is rs' m) = snd (exec_block callee actuals Is rs m)"
  using assms
proof (induction Is arbitrary: rs rs' m)
  case Nil
  then show ?case by simp
next
  case (Cons I Is)
  have c: "cut_regs k (exec_op callee actuals (i_id I) (i_op I) rs' m) =
           cut_regs k (exec_op callee actuals (i_id I) (i_op I) rs m)"
    using Cons.prems by (intro exec_op_below) (auto simp: instr_iids_def)
  show ?case
  proof (cases "exec_op callee actuals (i_id I) (i_op I) rs m")
    case (Next rs1 m1)
    then obtain rs1' where n': "exec_op callee actuals (i_id I) (i_op I) rs' m = Next rs1' m1"
      and b: "below k rs1' = below k rs1"
      using cut_Next[OF c] by blast
    have "\<forall>Inst \<in> set Is. \<forall>x \<in> set (instr_iids Inst). x < k"
      using Cons.prems(2) by simp
    from Cons.IH[OF b this, of m1] show ?thesis
      using Next n' by (auto split: prod.splits)
  next
    case (Jump b rs1 m1)
    then show ?thesis using c by (cases "exec_op callee actuals (i_id I) (i_op I) rs' m") auto
  next
    case (Done v m1)
    then show ?thesis using c by (cases "exec_op callee actuals (i_id I) (i_op I) rs' m") auto
  next
    case Bad
    then show ?thesis using c by (cases "exec_op callee actuals (i_id I) (i_op I) rs' m") auto
  next
    case NoRet
    then show ?thesis using c by (cases "exec_op callee actuals (i_id I) (i_op I) rs' m") auto
  qed
qed

lemma exec_op_jump_target:
  "exec_op callee actuals i oc rs m = Jump b rs' m' \<Longrightarrow> b \<in> set (opcode_bids oc)"
  by (induction callee actuals i oc rs m rule: exec_op.induct)
     (auto split: option.splits prod.splits if_splits)

lemma exec_block_jump_target:
  "exec_block callee actuals Is rs m = (Jump b rs' m', tr) \<Longrightarrow>
     b \<in> set (concat (map (\<lambda>I. opcode_bids (i_op I)) Is))"
proof (induction Is arbitrary: rs m tr)
  case Nil
  then show ?case by simp
next
  case (Cons I Is)
  show ?case
  proof (cases "exec_op callee actuals (i_id I) (i_op I) rs m")
    case (Next rs1 m1)
    then obtain tr1 where "exec_block callee actuals Is rs1 m1 = (Jump b rs' m', tr1)"
      using Cons.prems by (auto split: prod.splits)
    from Cons.IH[OF this] show ?thesis by simp
  next
    case (Jump b1 rs1 m1)
    then have "b1 = b" using Cons.prems by simp
    then show ?thesis using exec_op_jump_target[OF Jump] by simp
  qed (use Cons.prems in auto)
qed

lemma find_in_set: "find P xs = Some x \<Longrightarrow> x \<in> set xs"
  by (auto simp: find_Some_iff)

lemma find_append_last: "\<not> P y \<Longrightarrow> find P (xs @ [y]) = find P xs"
  by (induction xs) auto

lemma run_from_jump_prepend:
  "find (\<lambda>B. b_id B = b) bs = Some B \<Longrightarrow>
   exec_block callee actuals (b_instrs B) rs m = (Jump b' rs' m', tr) \<Longrightarrow>
   run_from callee actuals bs (Suc n) b rs m =
     prepend_trace tr (run_from callee actuals bs n b' rs' m')"
  by (simp add: prepend_trace_def)

lemma run_from_below:
  assumes ids: "\<forall>B \<in> set bs. \<forall>Inst \<in> set (b_instrs B). \<forall>x \<in> set (instr_iids Inst). x < k"
      and finds: "\<forall>b \<in> T. find (\<lambda>B. b_id B = b) bs' = find (\<lambda>B. b_id B = b) bs"
      and targets: "\<forall>B \<in> set bs. set (block_targets B) \<subseteq> T"
  shows "b \<in> T \<Longrightarrow> below k rs' = below k rs \<Longrightarrow>
         run_from callee actuals bs' n b rs' m = run_from callee actuals bs n b rs m"
proof (induction n arbitrary: b rs rs' m)
  case 0
  then show ?case by simp
next
  case (Suc n)
  have f: "find (\<lambda>B. b_id B = b) bs' = find (\<lambda>B. b_id B = b) bs"
    using finds Suc.prems(1) by blast
  show ?case
  proof (cases "find (\<lambda>B. b_id B = b) bs")
    case None
    then show ?thesis using f by simp
  next
    case (Some B)
    then have B: "B \<in> set bs" by (rule find_in_set)
    have lt: "\<forall>Inst \<in> set (b_instrs B). \<forall>x \<in> set (instr_iids Inst). x < k"
      using ids B by blast
    obtain r tr where r: "exec_block callee actuals (b_instrs B) rs m = (r, tr)"
      by (cases "exec_block callee actuals (b_instrs B) rs m")
    obtain r' tr' where r': "exec_block callee actuals (b_instrs B) rs' m = (r', tr')"
      by (cases "exec_block callee actuals (b_instrs B) rs' m")
    have c: "cut_regs k r' = cut_regs k r" and t: "tr' = tr"
      using exec_block_below[OF Suc.prems(2) lt, of callee actuals m] r r' by simp_all
    show ?thesis
    proof (cases r)
      case (Jump b2 rs2 m2)
      then obtain rs2' where j': "r' = Jump b2 rs2' m2" and bl: "below k rs2' = below k rs2"
        using c by (cases r') auto
      have "b2 \<in> set (block_targets B)"
        using exec_block_jump_target[of callee actuals "b_instrs B" rs m b2 rs2 m2 tr] r Jump
        by (simp add: block_targets_def)
      then have "b2 \<in> T" using targets B by blast
      from Suc.IH[OF this bl]
      show ?thesis using Some f r r' Jump j' t by simp
    next
      case (Next rs2 m2)
      then show ?thesis using Some f r r' c t by (cases r') auto
    next
      case (Done v m2)
      then show ?thesis using Some f r r' c t by (cases r') auto
    next
      case Bad
      then show ?thesis using Some f r r' c t by (cases r') auto
    next
      case NoRet
      then show ?thesis using Some f r r' c t by (cases r') auto
    qed
  qed
qed

subsection \<open>Frame: what a run leaves alone\<close>



subsection \<open>The clone\<close>

text \<open>
  Claim C8, as amended. After a successful run on a sequential candidate one function
  is appended to the module, the clone. With \<^verbatim>\<open>CloneFunction\<close> as the spec describes it,
  the clone has the blocks of the function as it was before the run, hence its block
  structure and instruction count, its parameters, its return type and its attributes,
  so it carries \<open>SanitizeThread\<close> exactly when the original did. The rewritten original,
  the dispatcher, keeps its name and no longer carries \<open>SanitizeThread\<close>; its other
  attributes, its parameters and its return type are those of the clone. The clone's
  name is the name of no function or global the module had, and it is the dispatcher's
  name with the suffix \<^verbatim>\<open>__swordomp__\<close> when that name is free in the module. The bodies
  differ: the dispatcher has two blocks more than the clone. (What the dispatcher's
  body does is the subject of claims C1 and C2.)
\<close>

theorem C8_clone_fidelity:
  assumes "runOnFunction M i = Inr M'"
      and "sequential_candidate (f_name (m_functions M ! i))"
  shows "length (m_functions M') = Suc (length (m_functions M))
       \<and> f_blocks (m_functions M' ! length (m_functions M)) = f_blocks (m_functions M ! i)
       \<and> f_params (m_functions M' ! length (m_functions M)) = f_params (m_functions M ! i)
       \<and> f_returns_void (m_functions M' ! length (m_functions M)) =
           f_returns_void (m_functions M ! i)
       \<and> f_attrs (m_functions M' ! length (m_functions M)) = f_attrs (m_functions M ! i)
       \<and> SanitizeThread \<notin> set (f_attrs (m_functions M' ! i))
       \<and> f_attrs (m_functions M' ! i) =
           removeAll SanitizeThread (f_attrs (m_functions M' ! length (m_functions M)))
       \<and> f_name (m_functions M' ! i) = f_name (m_functions M ! i)
       \<and> f_name (m_functions M' ! length (m_functions M)) \<notin> set (symbol_names M)
       \<and> (clone_name_free M i \<longrightarrow>
            f_name (m_functions M' ! length (m_functions M)) =
              f_name (m_functions M' ! i) @ ''__swordomp__'')
       \<and> f_params (m_functions M' ! i) = f_params (m_functions M' ! length (m_functions M))
       \<and> f_returns_void (m_functions M' ! i) =
           f_returns_void (m_functions M' ! length (m_functions M))
       \<and> length (f_blocks (m_functions M' ! i)) =
           length (f_blocks (m_functions M' ! length (m_functions M))) + 2"
proof -
  obtain F' c taken
    where r: "runOnFunction_seq taken status_name (m_functions M ! i) = Inr (F', c)"
      and t: "set taken = insert status_name (set (symbol_names M))"
      and f: "m_functions M' = (m_functions M)[i := F'] @ [c]"
    using runOnFunction_cases(6)[OF assms] by blast
  have len: "i < length (m_functions M)"
    using assms(1) by (rule runOnFunction_cases(1))
  have c: "m_functions M' ! length (m_functions M) = c" using f by (simp add: nth_append)
  have F': "m_functions M' ! i = F'" using f len by (simp add: nth_append)
  have cc: "c = (m_functions M ! i)\<lparr>f_name :=
                   setName taken (f_name (m_functions M ! i) @ ''__swordomp__'')\<rparr>"
    using r by (rule seq_Inr(1))
  have fresh: "f_name c \<notin> set (symbol_names M)"
    using setName_fresh[of taken "f_name (m_functions M ! i) @ ''__swordomp__''"] t cc
    by simp
  have free: "f_name c = f_name F' @ ''__swordomp__''" if "clone_name_free M i"
    using cc clone_name_free_setName[OF that t] seq_name[OF r] by simp
  have ne: "f_blocks (m_functions M ! i) \<noteq> []" using r by (rule seq_Inr(2))
  have blocks: "length (f_blocks F') = length (f_blocks c) + 2"
    using seq_blocks[OF r] cc ne by simp
  have rest: "f_blocks c = f_blocks (m_functions M ! i)"
             "f_params c = f_params (m_functions M ! i)"
             "f_returns_void c = f_returns_void (m_functions M ! i)"
             "f_attrs c = f_attrs (m_functions M ! i)"
             "SanitizeThread \<notin> set (f_attrs F')"
             "f_attrs F' = removeAll SanitizeThread (f_attrs c)"
             "f_name F' = f_name (m_functions M ! i)"
             "f_params F' = f_params c"
             "f_returns_void F' = f_returns_void c"
    using cc seq_Inr(5)[OF r] by simp_all
  show ?thesis
    unfolding c F' using rest fresh free blocks f by simp
qed

theorem C8_clone_fidelity_witness:
  "runOnFunction ex_module 1 = Inr ex_module_seq
   \<and> sequential_candidate (f_name (m_functions ex_module ! 1))
   \<and> clone_name_free ex_module 1
   \<and> f_name (m_functions ex_module_seq ! 2) = ''foo__swordomp__''
   \<and> f_blocks (m_functions ex_module_seq ! 2) = f_blocks ex_seq
   \<and> f_attrs (m_functions ex_module_seq ! 2) = [SanitizeThread, NoUnwind]
   \<and> f_attrs (m_functions ex_module_seq ! 1) = [NoUnwind]"
  using C8_clone_fidelity [OF ex_run_seq ex_seq_candidate] ex_run_seq ex_seq_candidate
  by (simp add: ex_module_def ex_module_seq_def ex_seq_def ex_seq_dispatcher_def ex_omp_def
        clone_name_free_def symbol_names_def)

text \<open>
  The claim as stated has only the name and the attribute distinguish the clone from
  the rewritten original. The bodies differ as well: \<^verbatim>\<open>foo\<close> has one block, and so has
  its clone, while the dispatcher has three, the flag test, the old body and the call.
\<close>

theorem C8_clone_fidelity_counterexample:
  "runOnFunction ex_module 1 = Inr ex_module_seq
   \<and> sequential_candidate (f_name (m_functions ex_module ! 1))
   \<and> length (f_blocks (m_functions ex_module_seq ! 2)) = 1
   \<and> length (f_blocks (m_functions ex_module_seq ! 1)) = 3
   \<and> f_blocks (m_functions ex_module_seq ! 1) \<noteq> f_blocks (m_functions ex_module_seq ! 2)"
  using ex_run_seq ex_seq_candidate
  by (simp add: ex_module_seq_def ex_seq_def ex_seq_dispatcher_def)

subsection \<open>The status flag of a module\<close>










subsection \<open>Running the pass again\<close>


text \<open>
  When the name the clone asks for is taken, the clone gets that name followed by
  digits. In \<open>ex_module_taken\<close> it is taken, and the run on \<^verbatim>\<open>foo\<close> succeeds.
\<close>

lemma clone_name_taken:
  assumes "runOnFunction M i = Inr M'"
      and "sequential_candidate (f_name (m_functions M ! i))"
      and "\<not> clone_name_free M i"
  shows "\<exists>d. d \<noteq> [] \<and> set d \<subseteq> set ''0123456789'' \<and>
             f_name (m_functions M' ! length (m_functions M)) =
               (f_name (m_functions M ! i) @ ''__swordomp__'') @ d"
proof -
  obtain F' c taken
    where r: "runOnFunction_seq taken status_name (m_functions M ! i) = Inr (F', c)"
      and t: "set taken = insert status_name (set (symbol_names M))"
      and f: "m_functions M' = (m_functions M)[i := F'] @ [c]"
    using runOnFunction_cases(6)[OF assms(1,2)] by blast
  have c: "m_functions M' ! length (m_functions M) = c" using f by (simp add: nth_append)
  have "f_name (m_functions M ! i) @ ''__swordomp__'' \<in> set taken"
    using assms(3) t by (simp add: clone_name_free_def)
  from setName_taken[OF this] show ?thesis
    unfolding c using seq_Inr(1)[OF r] by simp
qed

lemma ex_run_taken:
  "\<not> isl (runOnFunction ex_module_taken 0)"
  "sequential_candidate (f_name (m_functions ex_module_taken ! 0))"
  "\<not> clone_name_free ex_module_taken 0"
  "length (m_functions ex_module_taken) = 2"
  "f_name (m_functions ex_module_taken ! 0) = ''foo''"
  by (simp_all add: ex_module_taken_def ex_seq_def sequential_candidate_def
        clone_name_free_def ex_eval)

text \<open>
  After a run on a sequential candidate the entry block of the rewritten function
  holds the load, the compare and the branch, none of which has a debug location. A
  second run on it therefore ends at line 217, in the defect claim C3 is about.
\<close>

lemma seq_without_debugloc:
  assumes "f_blocks F = B # rest" and "b_instrs B \<noteq> []"
      and "find (\<lambda>Inst. i_debugloc Inst \<noteq> None) (b_instrs B) = None"
  shows "runOnFunction_seq taken g F =
           Inl (UndefinedBehaviour ''getDebugLoc through null firstEntryBBDI'')"
  using assms
  by (simp add: runOnFunction_seq_def Let_def splitBasicBlock_def split: list.splits)

lemma dispatcher_rerun:
  assumes "runOnFunction M i = Inr M'"
      and "sequential_candidate (f_name (m_functions M ! i))"
  shows "runOnFunction M' i =
           Inl (UndefinedBehaviour ''getDebugLoc through null firstEntryBBDI'')"
proof -
  obtain F' c taken
    where r: "runOnFunction_seq taken status_name (m_functions M ! i) = Inr (F', c)"
      and f: "m_functions M' = (m_functions M)[i := F'] @ [c]"
    using runOnFunction_cases(6)[OF assms] by blast
  have len: "i < length (m_functions M)"
    using assms(1) by (rule runOnFunction_cases(1))
  have F': "m_functions M' ! i = F'" using f len by (simp add: nth_append)
  have n: "f_name F' = f_name (m_functions M ! i)" using r by (rule seq_name)
  have len': "\<not> length (m_functions M') \<le> i" using f len by simp
  obtain B rest where b: "f_blocks F' = B # rest"
    and i: "b_instrs B =
              [newInst (fresh_iid (m_functions M ! i)) ''loadOmpStatus'' (Load status_name),
               newInst (fresh_iid (m_functions M ! i) + 1) ''__swordomp__cond''
                 (ICmpEQ (InstRef (fresh_iid (m_functions M ! i))) (ConstantInt 1)),
               newInst (fresh_iid (m_functions M ! i) + 3) []
                 (CondBr (InstRef (fresh_iid (m_functions M ! i) + 1))
                    (fresh_bid (m_functions M ! i) + 1) (fresh_bid (m_functions M ! i)))]"
    using seq_blocks[OF r] by simp
  have "runOnFunction_seq tk g F' =
          Inl (UndefinedBehaviour ''getDebugLoc through null firstEntryBBDI'')" for tk g
    using b by (rule seq_without_debugloc) (simp_all add: i newInst_def)
  then show ?thesis
    using assms(2) len' F' n
    by (simp add: runOnFunction_def Let_def sequential_candidate_def
             split: option.splits)
qed




subsection \<open>Metadata on the inserted instructions\<close>

text \<open>
  Claim C9 asks that each of the six inserted instructions carries a marker. On
  \<open>ex_omp\<close> the pass leaves, in order: the increment's load with both kinds of
  marker, its add with none, its store with one, the decrement's load with one, its
  subtract with none, its store with one, and the original return. The call of line
  154 names \<^verbatim>\<open>loadInc\<close> where the instruction just created is \<^verbatim>\<open>inc\<close>, and no call
  follows the creation of \<^verbatim>\<open>dec\<close>.
\<close>

theorem C9_markers:
  "map (\<lambda>Inst. (i_name Inst, map fst (i_metadata Inst)))
       (b_instrs (hd (f_blocks (m_functions (projr (runOnFunction ex_module 0)) ! 0)))) =
     [(''loadIncOmpStatus'', [''swordomp.ompstatus'', ''swordrt.ompstatus'']),
      (''incOmpStatus'', []),
      ([], [''swordrt.ompstatus'']),
      (''loadDecOmpStatus'', [''swordrt.ompstatus'']),
      (''decOmpStatus'', []),
      ([], [''swordrt.ompstatus'']),
      ([], [])]"
  by (simp add: ex_module_def ex_omp_def ex_seq_def ex_eval)

subsection \<open>A sequential candidate without debug information\<close>

lemma seq_never_fatal: "runOnFunction_seq taken g F \<noteq> Inl (FatalError s)"
  by (simp add: runOnFunction_seq_def Let_def splitBasicBlock_def
           split: list.splits option.splits prod.splits)

lemma omp_never_debug_fatal:
  "runOnFunction_omp g F \<noteq> Inl (FatalError ''No instructions with debug information!'')"
  by (simp add: runOnFunction_omp_def Let_def split: list.splits option.splits)

text \<open>
  Claim C3 asks for the fatal diagnostic when no instruction of the entry block has a
  debug location. No run of the pass ends in that diagnostic: the test of line 202
  reads \<^verbatim>\<open>firstEntryBBI\<close> twice. On \<open>ex_nodebug\<close> the pass goes on to clone the function
  and to rewrite the entry block, and then reads the debug location through the null
  \<^verbatim>\<open>firstEntryBBDI\<close> (line 221).
\<close>

theorem C3_missing_debug_info:
  "runOnFunction M i \<noteq> Inl (FatalError ''No instructions with debug information!'')
   \<and> runOnFunction ex_module_nodebug 0 =
       Inl (UndefinedBehaviour ''getDebugLoc through null firstEntryBBDI'')"
proof
  show "runOnFunction M i \<noteq> Inl (FatalError ''No instructions with debug information!'')"
  proof
    assume a: "runOnFunction M i = Inl (FatalError ''No instructions with debug information!'')"
    have "runOnFunction_seq taken g (m_functions M ! i) = Inl e \<Longrightarrow>
            e \<noteq> FatalError ''No instructions with debug information!''" for taken g e
      using seq_never_fatal by blast
    moreover have "runOnFunction_omp g (m_functions M ! i) = Inl e \<Longrightarrow>
            e \<noteq> FatalError ''No instructions with debug information!''" for g e
      using omp_never_debug_fatal by blast
    ultimately show False
      using a
      by (auto simp: runOnFunction_def Let_def
               split: if_splits option.splits sum.splits prod.splits)
  qed
  show "runOnFunction ex_module_nodebug 0 =
       Inl (UndefinedBehaviour ''getDebugLoc through null firstEntryBBDI'')"
    by (simp add: ex_module_nodebug_def ex_nodebug_def ex_eval)
qed

subsection \<open>An outlined function without a terminator\<close>

text \<open>
  Claim C5, as amended. For a function classified as outlined parallel work whose
  entry block is not empty and whose final block has no terminator, the pass ends the
  compilation with the fatal diagnostic \<^verbatim>\<open>Broken function found, compilation aborted!\<close>;
  no module results.
\<close>

theorem C5_broken_function:
  assumes "i < length (m_functions M)"
      and "parallel_outlined (f_name (m_functions M ! i))"
      and "f_blocks (m_functions M ! i) \<noteq> []"
      and "b_instrs (hd (f_blocks (m_functions M ! i))) \<noteq> []"
      and "getTerminator (last (f_blocks (m_functions M ! i))) = None"
  shows "runOnFunction M i = Inl (FatalError ''Broken function found, compilation aborted!'')"
proof -
  let ?F = "m_functions M ! i"
  obtain entryBB rest where b: "f_blocks ?F = entryBB # rest"
    using assms(3) by (cases "f_blocks ?F") auto
  obtain front others where e: "b_instrs entryBB = front # others"
    using assms(4) b by (cases "b_instrs entryBB") auto
  have "runOnFunction_omp g ?F = Inl (FatalError ''Broken function found, compilation aborted!'')" for g
  proof (cases rest)
    case Nil
    then show ?thesis
      using assms(5) b e
      by (auto simp: runOnFunction_omp_def Let_def getTerminator_def split: if_splits)
  next
    case (Cons r rs)
    then show ?thesis
      using assms(5) b e
      by (simp add: runOnFunction_omp_def Let_def)
  qed
  then show ?thesis
    using assms(1,2)
    by (simp add: runOnFunction_def Let_def parallel_outlined_def split: option.splits)
qed

theorem C5_broken_function_witness:
  "0 < length (m_functions \<lparr>m_globals = [], m_functions = [ex_omp_unterminated]\<rparr>)
   \<and> parallel_outlined (f_name ex_omp_unterminated)
   \<and> f_blocks ex_omp_unterminated \<noteq> []
   \<and> b_instrs (hd (f_blocks ex_omp_unterminated)) \<noteq> []
   \<and> getTerminator (last (f_blocks ex_omp_unterminated)) = None
   \<and> runOnFunction \<lparr>m_globals = [], m_functions = [ex_omp_unterminated]\<rparr> 0 =
       Inl (FatalError ''Broken function found, compilation aborted!'')"
  using C5_broken_function [of 0 "\<lparr>m_globals = [], m_functions = [ex_omp_unterminated]\<rparr>"]
  by (simp add: ex_omp_unterminated_def parallel_outlined_def excluded_name_def
        endswith_def startswith_def getTerminator_def)

text \<open>
  The claim as stated covers every outlined function whose final block has no
  terminator, the one whose only block is empty among them. There the pass takes
  \<^verbatim>\<open>front()\<close> of the empty entry block (line 146) before it looks for the terminator.
\<close>

theorem C5_broken_function_counterexample:
  "parallel_outlined (f_name ex_omp_empty)
   \<and> getTerminator (last (f_blocks ex_omp_empty)) = None
   \<and> runOnFunction \<lparr>m_globals = [], m_functions = [ex_omp_empty]\<rparr> 0 =
       Inl (UndefinedBehaviour ''front of an empty entry block'')"
  by (simp add: ex_omp_empty_def parallel_outlined_def ex_eval)

subsection \<open>The dispatcher when the flag is 1\<close>

lemma dispatch_then:
  assumes "runOnFunction_seq taken g F = Inr (F', c)"
      and "m g = 1"
      and "length (f_params F) \<le> length actuals"
  shows "invoke callee F' actuals m (Suc (Suc fuel)) =
           (case callee (f_name c) (take (length (f_params F)) actuals) m of
              None \<Rightarrow>
                Some (CalleeNoReturn,
                      [fresh_iid F, fresh_iid F + 1, fresh_iid F + 3, fresh_iid F + 4])
            | Some (r, m') \<Rightarrow>
                Some (Returned (if f_returns_void F then None else Some r) m',
                      [fresh_iid F, fresh_iid F + 1, fresh_iid F + 3, fresh_iid F + 4,
                       fresh_iid F + 5]))"
proof -
  let ?k = "fresh_iid F" and ?nb = "fresh_bid F"
  define headBB where "headBB = (hd (f_blocks F))\<lparr>b_instrs :=
                  [newInst ?k ''loadOmpStatus'' (Load g),
                   newInst (?k + 1) ''__swordomp__cond'' (ICmpEQ (InstRef ?k) (ConstantInt 1)),
                   newInst (?k + 3) [] (CondBr (InstRef (?k + 1)) (?nb + 1) ?nb)]\<rparr>"
  define newEntryBB where "newEntryBB = \<lparr>b_id = ?nb, b_name = ''__swordomp__entry'',
                    b_instrs = b_instrs (hd (f_blocks F))\<rparr>"
  define thenBB where "thenBB = \<lparr>b_id = ?nb + 1, b_name = ''__swordomp__if.then'',
                    b_instrs =
                      [setDebugLoc
                         (newInst (?k + 4)
                            (if f_returns_void F then [] else f_name F @ ''__swordomp__'')
                            (CallInst (setName taken (f_name F @ ''__swordomp__''))
                               (collect_args 0 (f_params F))))
                         (i_debugloc (the (find (\<lambda>Inst. i_debugloc Inst \<noteq> None)
                                              (b_instrs (hd (f_blocks F)))))),
                       newInst (?k + 5) []
                         (ReturnInst (if f_returns_void F then None
                                      else Some (InstRef (?k + 4))))]\<rparr>"
  have blocks: "f_blocks F' = headBB # newEntryBB # tl (f_blocks F) @ [thenBB]"
    unfolding headBB_def newEntryBB_def thenBB_def by (rule seq_blocks[OF assms(1)])
  have ne: "f_blocks F \<noteq> []" using assms(1) by (rule seq_Inr(2))
  then have "hd (f_blocks F) \<in> set (f_blocks F)" by simp
  then have e: "b_id headBB < ?nb" unfolding headBB_def by (simp add: fresh_bid_gt)
  have tl_lt: "\<forall>B \<in> set (tl (f_blocks F)). \<not> b_id B = ?nb + 1"
  proof
    fix B assume "B \<in> set (tl (f_blocks F))"
    then have "B \<in> set (f_blocks F)" using ne by (auto dest: list.set_sel(2))
    then have "b_id B < ?nb" by (rule fresh_bid_gt)
    then show "\<not> b_id B = ?nb + 1" by simp
  qed
  have find_then: "find (\<lambda>B. b_id B = ?nb + 1) (f_blocks F') = Some thenBB"
    unfolding blocks using e find_append_skip[OF tl_lt, of "[thenBB]"]
    by (simp add: newEntryBB_def thenBB_def)
  have head: "exec_block callee actuals (b_instrs headBB) Map.empty m =
                (Jump (?nb + 1) (Map.empty(?k \<mapsto> 1, ?k + 1 \<mapsto> 1)) m, [?k, ?k + 1, ?k + 3])"
    using assms(2) by (simp add: headBB_def newInst_def)
  have args: "eval_operands actuals rs (collect_args 0 (f_params F)) =
                Some (take (length (f_params F)) actuals)" for rs
    using eval_collect_args[of 0 "f_params F" actuals rs] assms(3) by simp
  have cn: "setName taken (f_name F @ ''__swordomp__'') = f_name c"
    using seq_Inr(1)[OF assms(1)] by simp
  have "then": "exec_block callee actuals (b_instrs thenBB) (Map.empty(?k \<mapsto> 1, ?k + 1 \<mapsto> 1)) m =
                (case callee (f_name c) (take (length (f_params F)) actuals) m of
                   None \<Rightarrow> (NoRet, [?k + 4])
                 | Some (r, m') \<Rightarrow>
                     (Done (if f_returns_void F then None else Some r) m', [?k + 4, ?k + 5]))"
    by (simp add: thenBB_def newInst_def setDebugLoc_def args cn split: option.splits)
  have find_head: "find (\<lambda>B. b_id B = b_id headBB) (f_blocks F') = Some headBB"
    by (simp add: blocks)
  have start: "invoke callee F' actuals m (Suc (Suc fuel)) =
          run_from callee actuals (f_blocks F') (Suc (Suc fuel)) (b_id headBB) Map.empty m"
    by (simp add: invoke_def blocks)
  show ?thesis
  proof (cases "callee (f_name c) (take (length (f_params F)) actuals) m")
    case None
    then have "exec_block callee actuals (b_instrs thenBB) (Map.empty(?k \<mapsto> 1, ?k + 1 \<mapsto> 1)) m
                 = (NoRet, [?k + 4])"
      using "then" by simp
    from run_from_noret[OF find_then this]
    show ?thesis
      unfolding start run_from_jump[OF find_head head] using None by simp
  next
    case (Some p)
    obtain r m' where p: "p = (r, m')" by (cases p)
    have "exec_block callee actuals (b_instrs thenBB) (Map.empty(?k \<mapsto> 1, ?k + 1 \<mapsto> 1)) m
                 = (Done (if f_returns_void F then None else Some r) m', [?k + 4, ?k + 5])"
      using "then" Some p by simp
    from run_from_done[OF find_then this]
    show ?thesis
      unfolding start run_from_jump[OF find_head head] using Some p by simp
  qed
qed

text \<open>
  Claim C1, as amended. Take a successful run of the pass on a sequential candidate and
  invoke the rewritten function with the status flag equal to 1 and arguments that fit
  it: one for each parameter, and for a variadic function any number after those. With
  fuel for two blocks or more, the invocation executes the load, the compare, the
  branch and the call, and the call goes to the clone, the function the run appended
  to the module, with the arguments for the parameters in their order. For a function
  that is not variadic these are all the arguments of the invocation; the variable
  arguments of a variadic function are not passed on. The clone's name is the name of
  no function or global the module had, and it is the original's name with the suffix
  \<^verbatim>\<open>__swordomp__\<close> when that name is free in the module. If the clone returns, the
  invocation executes the return next and returns the clone's value and the memory the
  clone left, or no value when the function returns void; if the clone does not
  return, neither does the invocation. The last block of the rewritten function holds
  that call, its operands the parameters in order, and that return.
\<close>

theorem C1_dispatch:
  assumes "runOnFunction M i = Inr M'"
      and "sequential_candidate (f_name (m_functions M ! i))"
      and "m status_name = 1"
      and "well_formed_call (m_functions M ! i) actuals"
  shows "invoke callee (m_functions M' ! i) actuals m (Suc (Suc fuel)) =
           (case callee (f_name (m_functions M' ! length (m_functions M)))
                   (take (length (f_params (m_functions M ! i))) actuals) m of
              None \<Rightarrow>
                Some (CalleeNoReturn,
                      [fresh_iid (m_functions M ! i), fresh_iid (m_functions M ! i) + 1,
                       fresh_iid (m_functions M ! i) + 3, fresh_iid (m_functions M ! i) + 4])
            | Some (r, m') \<Rightarrow>
                Some (Returned (if f_returns_void (m_functions M ! i) then None else Some r) m',
                      [fresh_iid (m_functions M ! i), fresh_iid (m_functions M ! i) + 1,
                       fresh_iid (m_functions M ! i) + 3, fresh_iid (m_functions M ! i) + 4,
                       fresh_iid (m_functions M ! i) + 5]))
       \<and> (\<not> f_is_vararg (m_functions M ! i) \<longrightarrow>
            take (length (f_params (m_functions M ! i))) actuals = actuals)
       \<and> f_name (m_functions M' ! length (m_functions M)) \<notin> set (symbol_names M)
       \<and> (clone_name_free M i \<longrightarrow>
            f_name (m_functions M' ! length (m_functions M)) =
              f_name (m_functions M ! i) @ ''__swordomp__'')
       \<and> map i_op (b_instrs (last (f_blocks (m_functions M' ! i)))) =
           [CallInst (f_name (m_functions M' ! length (m_functions M)))
              (map ArgRef [0 ..< length (f_params (m_functions M ! i))]),
            ReturnInst (if f_returns_void (m_functions M ! i) then None
                        else Some (InstRef (fresh_iid (m_functions M ! i) + 4)))]"
proof -
  obtain F' c taken
    where r: "runOnFunction_seq taken status_name (m_functions M ! i) = Inr (F', c)"
      and t: "set taken = insert status_name (set (symbol_names M))"
      and f: "m_functions M' = (m_functions M)[i := F'] @ [c]"
    using runOnFunction_cases(6)[OF assms(1,2)] by blast
  have len: "i < length (m_functions M)"
    using assms(1) by (rule runOnFunction_cases(1))
  have c: "m_functions M' ! length (m_functions M) = c" using f by (simp add: nth_append)
  have F': "m_functions M' ! i = F'" using f len by (simp add: nth_append)
  have args: "collect_args n ps = map ArgRef [n ..< n + length ps]" for n ps
    by (induction ps arbitrary: n) (simp_all add: upt_conv_Cons del: upt_Suc)
  have le: "length (f_params (m_functions M ! i)) \<le> length actuals"
    using assms(4) by (simp add: well_formed_call_def split: if_splits)
  have all: "take (length (f_params (m_functions M ! i))) actuals = actuals"
    if "\<not> f_is_vararg (m_functions M ! i)"
    using assms(4) that by (simp add: well_formed_call_def)
  have cn: "f_name c = setName taken (f_name (m_functions M ! i) @ ''__swordomp__'')"
    using seq_Inr(1)[OF r] by simp
  have fresh: "f_name c \<notin> set (symbol_names M)"
    using setName_fresh[of taken "f_name (m_functions M ! i) @ ''__swordomp__''"] t cn
    by simp
  have free: "f_name c = f_name (m_functions M ! i) @ ''__swordomp__''"
    if "clone_name_free M i"
    using cn clone_name_free_setName[OF that t] by simp
  have run: "invoke callee F' actuals m (Suc (Suc fuel)) =
           (case callee (f_name c) (take (length (f_params (m_functions M ! i))) actuals) m of
              None \<Rightarrow>
                Some (CalleeNoReturn,
                      [fresh_iid (m_functions M ! i), fresh_iid (m_functions M ! i) + 1,
                       fresh_iid (m_functions M ! i) + 3, fresh_iid (m_functions M ! i) + 4])
            | Some (r, m') \<Rightarrow>
                Some (Returned (if f_returns_void (m_functions M ! i) then None else Some r) m',
                      [fresh_iid (m_functions M ! i), fresh_iid (m_functions M ! i) + 1,
                       fresh_iid (m_functions M ! i) + 3, fresh_iid (m_functions M ! i) + 4,
                       fresh_iid (m_functions M ! i) + 5]))"
    using r assms(3) le by (rule dispatch_then[where g = status_name and m = m])
  have last_block: "map i_op (b_instrs (last (f_blocks F'))) =
           [CallInst (f_name c) (map ArgRef [0 ..< length (f_params (m_functions M ! i))]),
            ReturnInst (if f_returns_void (m_functions M ! i) then None
                        else Some (InstRef (fresh_iid (m_functions M ! i) + 4)))]"
    using seq_blocks[OF r] args[of 0] cn by (simp add: newInst_def setDebugLoc_def)
  show ?thesis
    unfolding c F' using run all fresh free last_block by simp
qed

theorem C1_dispatch_witness:
  "runOnFunction ex_module 1 = Inr ex_module_seq
   \<and> sequential_candidate (f_name (m_functions ex_module ! 1))
   \<and> ex_memory 1 status_name = 1
   \<and> well_formed_call (m_functions ex_module ! 1) [3, 4]
   \<and> \<not> f_is_vararg (m_functions ex_module ! 1)
   \<and> clone_name_free ex_module 1
   \<and> f_name (m_functions ex_module_seq ! 2) = ''foo__swordomp__''
   \<and> invoke ex_callee ex_seq_dispatcher [3, 4] (ex_memory 1) 2 =
       Some (Returned (Some 7) (ex_memory 1), [2, 3, 5, 6, 7])"
proof -
  have flag: "ex_memory 1 status_name = 1" by (simp add: ex_memory_def)
  have wf: "well_formed_call (m_functions ex_module ! 1) [3, 4]"
    and nv: "\<not> f_is_vararg (m_functions ex_module ! 1)"
    and free: "clone_name_free ex_module 1"
    by (simp_all add: well_formed_call_def clone_name_free_def symbol_names_def
          ex_module_def ex_seq_def ex_omp_def)
  have call: "ex_callee ''foo__swordomp__'' [3, 4] (ex_memory 1) = Some (7, ex_memory 1)"
    by (simp add: ex_callee_def)
  have F: "m_functions ex_module ! 1 = ex_seq"
    and D: "m_functions ex_module_seq ! 1 = ex_seq_dispatcher"
    and C: "m_functions ex_module_seq ! length (m_functions ex_module) =
              ex_seq\<lparr>f_name := ''foo__swordomp__''\<rparr>"
    by (simp_all add: ex_module_def ex_module_seq_def)
  have k: "fresh_iid ex_seq = 2" and n: "f_name ex_seq = ''foo''"
    and v: "\<not> f_returns_void ex_seq" and ps: "length (f_params ex_seq) = 2"
    by (simp_all add: ex_seq_def fresh_iid_def fresh_def block_iids_def instr_iids_def)
  have "invoke ex_callee ex_seq_dispatcher [3, 4] (ex_memory 1) (Suc (Suc 0)) =
          Some (Returned (Some 7) (ex_memory 1), [2, 3, 5, 6, 7])"
    using C1_dispatch [where m = "ex_memory 1" and callee = ex_callee and fuel = 0
                         and actuals = "[3, 4]",
                       OF ex_run_seq ex_seq_candidate flag wf]
    unfolding F D C k n ps by (simp add: call v)
  moreover have "f_name (m_functions ex_module_seq ! 2) = ''foo__swordomp__''"
    by (simp add: ex_module_seq_def)
  ultimately show ?thesis
    using ex_run_seq ex_seq_candidate flag wf nv free by (simp add: numeral_2_eq_2)
qed

text \<open>
  The claim as stated has the original arguments forwarded for every input, to a clone
  of a fixed name. The variadic \<^verbatim>\<open>foo\<close>, invoked with 3 and 4, calls its clone with 3
  alone: a clone that adds up its arguments returns 3 to the dispatcher, and would
  return 7 on the arguments of the invocation. And in \<open>ex_module_taken\<close> the name is
  taken: the clone of \<^verbatim>\<open>foo\<close> is not named \<^verbatim>\<open>foo__swordomp__\<close>.
\<close>

theorem C1_dispatch_counterexample:
  "runOnFunction ex_module_variadic 0 =
     Inr \<lparr>m_globals = [extern_status_global],
          m_functions = [ex_variadic_dispatcher, ex_variadic\<lparr>f_name := ''foo__swordomp__''\<rparr>]\<rparr>
   \<and> sequential_candidate (f_name (m_functions ex_module_variadic ! 0))
   \<and> ex_memory 1 status_name = 1
   \<and> well_formed_call ex_variadic [3, 4]
   \<and> ex_callee ''foo__swordomp__'' [3, 4] (ex_memory 1) = Some (7, ex_memory 1)
   \<and> invoke ex_callee ex_variadic_dispatcher [3, 4] (ex_memory 1) 2 =
       Some (Returned (Some 3) (ex_memory 1), [1, 2, 4, 5, 6])
   \<and> \<not> isl (runOnFunction ex_module_taken 0)
   \<and> sequential_candidate (f_name (m_functions ex_module_taken ! 0))
   \<and> f_name (m_functions (projr (runOnFunction ex_module_taken 0)) ! 2) \<noteq> ''foo__swordomp__''"
proof -
  have run: "runOnFunction ex_module_variadic 0 =
     Inr \<lparr>m_globals = [extern_status_global],
          m_functions = [ex_variadic_dispatcher, ex_variadic\<lparr>f_name := ''foo__swordomp__''\<rparr>]\<rparr>"
    by (simp add: ex_module_variadic_def ex_variadic_def ex_variadic_dispatcher_def ex_eval)
  have cand: "sequential_candidate (f_name (m_functions ex_module_variadic ! 0))"
    by (simp add: ex_module_variadic_def ex_variadic_def sequential_candidate_def
          excluded_name_def endswith_def startswith_def)
  have inv: "invoke ex_callee ex_variadic_dispatcher [3, 4] (ex_memory 1) (Suc (Suc 0)) =
       Some (Returned (Some 3) (ex_memory 1), [1, 2, 4, 5, 6])"
    by (simp add: ex_variadic_dispatcher_def invoke_def ex_callee_def ex_memory_def
          status_name_def)
  have run_taken:
    "runOnFunction ex_module_taken 0 = Inr (projr (runOnFunction ex_module_taken 0))"
    using ex_run_taken(1) by simp
  obtain d where "d \<noteq> []"
    and "f_name (m_functions (projr (runOnFunction ex_module_taken 0)) ! 2) =
           ''foo__swordomp__'' @ d"
    using clone_name_taken[OF run_taken ex_run_taken(2,3)] ex_run_taken(4,5)
    by (auto simp: numeral_2_eq_2)
  then have "f_name (m_functions (projr (runOnFunction ex_module_taken 0)) ! 2) \<noteq>
               ''foo__swordomp__''"
    by simp
  then show ?thesis
    using run cand inv ex_run_taken(1,2)
    by (simp add: ex_memory_def ex_callee_def well_formed_call_def ex_variadic_def
          numeral_2_eq_2)
qed

subsection \<open>The dispatcher when the flag is not 1\<close>

lemma dispatch_else:
  assumes "runOnFunction_seq taken g F = Inr (F', c)"
      and "m g \<noteq> 1"
      and "entry_has_no_predecessor F"
  shows "invoke callee F' actuals m (Suc fuel) =
           prepend_trace [fresh_iid F, fresh_iid F + 1, fresh_iid F + 3]
             (invoke callee F actuals m fuel)"
proof -
  let ?k = "fresh_iid F" and ?nb = "fresh_bid F"
  define entryBB where "entryBB = hd (f_blocks F)"
  define headBB where "headBB = entryBB\<lparr>b_instrs :=
                  [newInst ?k ''loadOmpStatus'' (Load g),
                   newInst (?k + 1) ''__swordomp__cond'' (ICmpEQ (InstRef ?k) (ConstantInt 1)),
                   newInst (?k + 3) [] (CondBr (InstRef (?k + 1)) (?nb + 1) ?nb)]\<rparr>"
  define newEntryBB where "newEntryBB = \<lparr>b_id = ?nb, b_name = ''__swordomp__entry'',
                    b_instrs = b_instrs entryBB\<rparr>"
  obtain thenBB where blocks': "f_blocks F' = headBB # newEntryBB # tl (f_blocks F) @ [thenBB]"
    and then_id: "b_id thenBB = ?nb + 1"
    unfolding headBB_def newEntryBB_def entryBB_def using seq_blocks[OF assms(1)] by simp
  have ne: "f_blocks F \<noteq> []" using assms(1) by (rule seq_Inr(2))
  then have blocks: "f_blocks F = entryBB # tl (f_blocks F)" by (simp add: entryBB_def)
  have entry_in: "entryBB \<in> set (f_blocks F)" using ne by (simp add: entryBB_def)
  have e_lt: "b_id entryBB < ?nb" using entry_in by (rule fresh_bid_gt)
  have head_id: "b_id headBB = b_id entryBB" by (simp add: headBB_def)
  define T where "T = {b. b \<noteq> b_id entryBB \<and> b < ?nb}"
  have ids: "\<forall>B \<in> set (f_blocks F). \<forall>Inst \<in> set (b_instrs B). \<forall>x \<in> set (instr_iids Inst). x < ?k"
    using fresh_iid_gt by blast
  have targets: "\<forall>B \<in> set (f_blocks F). set (block_targets B) \<subseteq> T"
  proof (intro ballI subsetI)
    fix B b assume B: "B \<in> set (f_blocks F)" and b: "b \<in> set (block_targets B)"
    have "b < ?nb" using B b by (rule fresh_bid_target)
    moreover have "b \<noteq> b_id entryBB"
      using assms(3) B b by (auto simp: entry_has_no_predecessor_def entryBB_def)
    ultimately show "b \<in> T" by (simp add: T_def)
  qed
  have finds: "\<forall>b \<in> T. find (\<lambda>B. b_id B = b) (f_blocks F') = find (\<lambda>B. b_id B = b) (f_blocks F)"
  proof
    fix b assume "b \<in> T"
    then have b: "b \<noteq> b_id entryBB" "b < ?nb" by (simp_all add: T_def)
    have "find (\<lambda>B. b_id B = b) (f_blocks F') = find (\<lambda>B. b_id B = b) (tl (f_blocks F) @ [thenBB])"
      unfolding blocks' using b by (simp add: head_id newEntryBB_def)
    also have "\<dots> = find (\<lambda>B. b_id B = b) (tl (f_blocks F))"
      using b then_id by (intro find_append_last) simp
    also have "\<dots> = find (\<lambda>B. b_id B = b) (f_blocks F)"
      using b by (subst (2) blocks) simp
    finally show "find (\<lambda>B. b_id B = b) (f_blocks F') = find (\<lambda>B. b_id B = b) (f_blocks F)" .
  qed
  have find_head: "find (\<lambda>B. b_id B = b_id entryBB) (f_blocks F') = Some headBB"
    by (simp add: blocks' head_id)
  have find_new: "find (\<lambda>B. b_id B = ?nb) (f_blocks F') = Some newEntryBB"
    using e_lt by (simp add: blocks' head_id newEntryBB_def)
  have find_entry: "find (\<lambda>B. b_id B = b_id entryBB) (f_blocks F) = Some entryBB"
    by (subst blocks) simp
  define rs0 :: registers where "rs0 = Map.empty(?k \<mapsto> m g, ?k + 1 \<mapsto> 0)"
  have head: "exec_block callee actuals (b_instrs headBB) Map.empty m =
                (Jump ?nb rs0 m, [?k, ?k + 1, ?k + 3])"
    using assms(2) by (simp add: headBB_def newInst_def rs0_def)
  have rs0: "below ?k rs0 = below ?k Map.empty" by (simp add: rs0_def)
  have start': "invoke callee F' actuals m (Suc fuel) =
                  prepend_trace [?k, ?k + 1, ?k + 3]
                    (run_from callee actuals (f_blocks F') fuel ?nb rs0 m)"
  proof -
    have "invoke callee F' actuals m (Suc fuel) =
            run_from callee actuals (f_blocks F') (Suc fuel) (b_id entryBB) Map.empty m"
      by (simp add: invoke_def blocks' head_id del: run_from.simps)
    also have "\<dots> = prepend_trace [?k, ?k + 1, ?k + 3]
                    (run_from callee actuals (f_blocks F') fuel ?nb rs0 m)"
      using find_head head by (rule run_from_jump_prepend)
    finally show ?thesis .
  qed
  have start: "invoke callee F actuals m fuel =
                  run_from callee actuals (f_blocks F) fuel (b_id entryBB) Map.empty m"
    unfolding invoke_def by (subst blocks) simp
  have "run_from callee actuals (f_blocks F') fuel ?nb rs0 m =
        run_from callee actuals (f_blocks F) fuel (b_id entryBB) Map.empty m"
  proof (cases fuel)
    case 0
    then show ?thesis by simp
  next
    case (Suc n)
    have lt: "\<forall>Inst \<in> set (b_instrs entryBB). \<forall>x \<in> set (instr_iids Inst). x < ?k"
      using ids entry_in by blast
    obtain r tr where r: "exec_block callee actuals (b_instrs entryBB) Map.empty m = (r, tr)"
      by (cases "exec_block callee actuals (b_instrs entryBB) Map.empty m")
    obtain r' tr' where r': "exec_block callee actuals (b_instrs newEntryBB) rs0 m = (r', tr')"
      by (cases "exec_block callee actuals (b_instrs newEntryBB) rs0 m")
    have c: "cut_regs ?k r' = cut_regs ?k r" and t: "tr' = tr"
      using exec_block_below[OF rs0 lt, of callee actuals m] r r'
      by (simp_all add: newEntryBB_def)
    show ?thesis
    proof (cases r)
      case (Jump b2 rs2 m2)
      then obtain rs2' where j': "r' = Jump b2 rs2' m2" and bl: "below ?k rs2' = below ?k rs2"
        using c by (cases r') auto
      have "b2 \<in> set (block_targets entryBB)"
        using exec_block_jump_target[of callee actuals "b_instrs entryBB" Map.empty m b2 rs2 m2 tr]
              r Jump
        by (simp add: block_targets_def)
      then have "b2 \<in> T" using targets entry_in by blast
      from run_from_below[OF ids finds targets this bl, of callee actuals n m2]
      show ?thesis
        unfolding Suc using find_new find_entry r r' Jump j' t by simp
    next
      case (Next rs2 m2)
      then show ?thesis unfolding Suc using find_new find_entry r r' c t by (cases r') auto
    next
      case (Done v m2)
      then show ?thesis unfolding Suc using find_new find_entry r r' c t by (cases r') auto
    next
      case Bad
      then show ?thesis unfolding Suc using find_new find_entry r r' c t by (cases r') auto
    next
      case NoRet
      then show ?thesis unfolding Suc using find_new find_entry r r' c t by (cases r') auto
    qed
  qed
  then show ?thesis unfolding start' start by simp
qed

text \<open>
  Claim C2. Take a successful run of the pass on a sequential candidate whose entry
  block is no branch target (as LLVM requires of every function), and invoke the
  rewritten function with the status flag different from 1. With one more unit of
  fuel than the original function gets, the invocation ends as the invocation of the
  original does on the same arguments, memory and callees: the same return value and
  memory, the same fault, the same call that does not return, or out of fuel alike.
  The instructions it executes are the load of the flag, the compare against 1 and
  the conditional branch, followed by exactly the instructions the original executes.
  The entry block of the rewritten function holds those three instructions only; the
  block after it holds the instructions of the original entry block, and the
  original's other blocks follow unchanged.
\<close>

theorem C2_equivalence:
  assumes "runOnFunction M i = Inr M'"
      and "sequential_candidate (f_name (m_functions M ! i))"
      and "m status_name \<noteq> 1"
      and "entry_has_no_predecessor (m_functions M ! i)"
  shows "invoke callee (m_functions M' ! i) actuals m (Suc fuel) =
           prepend_trace
             [fresh_iid (m_functions M ! i), fresh_iid (m_functions M ! i) + 1,
              fresh_iid (m_functions M ! i) + 3]
             (invoke callee (m_functions M ! i) actuals m fuel)
       \<and> map (\<lambda>Inst. (i_id Inst, i_op Inst)) (b_instrs (hd (f_blocks (m_functions M' ! i)))) =
           [(fresh_iid (m_functions M ! i), Load status_name),
            (fresh_iid (m_functions M ! i) + 1,
               ICmpEQ (InstRef (fresh_iid (m_functions M ! i))) (ConstantInt 1)),
            (fresh_iid (m_functions M ! i) + 3,
               CondBr (InstRef (fresh_iid (m_functions M ! i) + 1))
                 (fresh_bid (m_functions M ! i) + 1) (fresh_bid (m_functions M ! i)))]
       \<and> butlast (tl (f_blocks (m_functions M' ! i))) =
           \<lparr>b_id = fresh_bid (m_functions M ! i), b_name = ''__swordomp__entry'',
            b_instrs = b_instrs (hd (f_blocks (m_functions M ! i)))\<rparr>
           # tl (f_blocks (m_functions M ! i))"
proof -
  obtain F' c taken where r: "runOnFunction_seq taken status_name (m_functions M ! i) = Inr (F', c)"
    and f: "m_functions M' = (m_functions M)[i := F'] @ [c]"
    using runOnFunction_cases(6)[OF assms(1,2)] by blast
  have len: "i < length (m_functions M)"
    using assms(1) by (rule runOnFunction_cases(1))
  have F': "m_functions M' ! i = F'" using f len by (simp add: nth_append)
  show ?thesis
    unfolding F'
    using dispatch_else[where g = status_name and m = m, OF r assms(3,4)] seq_blocks[OF r]
    by (simp add: newInst_def butlast_append)
qed

theorem C2_equivalence_witness:
  "runOnFunction ex_module 1 = Inr ex_module_seq
   \<and> sequential_candidate (f_name (m_functions ex_module ! 1))
   \<and> ex_memory 0 status_name \<noteq> 1
   \<and> entry_has_no_predecessor (m_functions ex_module ! 1)
   \<and> invoke ex_callee ex_seq [3, 4] (ex_memory 0) 1 =
       Some (Returned (Some 7) (ex_memory 0), [0, 1])
   \<and> invoke ex_callee ex_seq_dispatcher [3, 4] (ex_memory 0) 2 =
       Some (Returned (Some 7) (ex_memory 0), [2, 3, 5, 0, 1])"
proof -
  have flag: "ex_memory 0 status_name \<noteq> 1" by (simp add: ex_memory_def)
  have nopred: "entry_has_no_predecessor (m_functions ex_module ! 1)"
    by (simp add: ex_module_def ex_seq_def entry_has_no_predecessor_def block_targets_def)
  have orig: "invoke ex_callee ex_seq [3, 4] (ex_memory 0) 1 =
                Some (Returned (Some 7) (ex_memory 0), [0, 1])"
    by (simp add: invoke_def ex_seq_def)
  have F: "m_functions ex_module ! 1 = ex_seq"
    and D: "m_functions ex_module_seq ! 1 = ex_seq_dispatcher"
    by (simp_all add: ex_module_def ex_module_seq_def)
  have k: "fresh_iid ex_seq = 2"
    by (simp add: ex_seq_def fresh_iid_def fresh_def block_iids_def instr_iids_def)
  have "invoke ex_callee ex_seq_dispatcher [3, 4] (ex_memory 0) (Suc 1) =
          Some (Returned (Some 7) (ex_memory 0), [2, 3, 5, 0, 1])"
    using C2_equivalence [where m = "ex_memory 0" and callee = ex_callee
                            and actuals = "[3, 4]" and fuel = 1,
                          OF ex_run_seq ex_seq_candidate flag nopred]
    unfolding F D k orig by (simp add: prepend_trace_def)
  then show ?thesis
    using ex_run_seq ex_seq_candidate flag nopred orig by (simp add: numeral_2_eq_2)
qed

subsection \<open>The bracket around an outlined function\<close>

subsubsection \<open>Prefixes of a block\<close>

lemma exec_block_append:
  "exec_block callee actuals (Is @ Js) rs m =
     (case straight callee actuals Is rs m of
        (Next rs' m', tr) \<Rightarrow>
          (case exec_block callee actuals Js rs' m' of (r, tr') \<Rightarrow> (r, tr @ tr'))
      | (r, tr) \<Rightarrow> (r, tr))"
proof (induction Is arbitrary: rs m)
  case Nil
  then show ?case by simp
next
  case (Cons I Is)
  show ?case
  proof (cases "exec_op callee actuals (i_id I) (i_op I) rs m")
    case (Next rs1 m1)
    then show ?thesis
      using Cons.IH[of rs1 m1]
      by (simp split: prod.splits step_result.splits)
  qed simp_all
qed

lemma straight_trace:
  "set (snd (straight callee actuals Is rs m)) \<subseteq> i_id ` set Is"
proof (induction Is arbitrary: rs m)
  case Nil
  then show ?case by simp
next
  case (Cons I Is)
  show ?case
  proof (cases "exec_op callee actuals (i_id I) (i_op I) rs m")
    case (Next rs1 m1)
    then show ?thesis using Cons.IH[of rs1 m1] by (auto split: prod.splits)
  qed simp_all
qed

lemma exec_block_trace:
  "set (snd (exec_block callee actuals Is rs m)) \<subseteq> i_id ` set Is"
proof (induction Is arbitrary: rs m)
  case Nil
  then show ?case by simp
next
  case (Cons I Is)
  show ?case
  proof (cases "exec_op callee actuals (i_id I) (i_op I) rs m")
    case (Next rs1 m1)
    then show ?thesis using Cons.IH[of rs1 m1] by (auto split: prod.splits)
  qed simp_all
qed

lemma old_trace_straight:
  assumes "\<forall>Inst \<in> set Is. i_id Inst < k" and "straight callee actuals Is rs m = (r, tr)"
  shows "filter (\<lambda>x. k \<le> x) tr = []"
proof -
  have "\<forall>x \<in> set tr. x < k"
    using straight_trace[of callee actuals Is rs m] assms by auto
  then show ?thesis by (auto simp: filter_empty_conv)
qed

lemma old_trace_block:
  assumes "\<forall>Inst \<in> set Is. i_id Inst < k" and "exec_block callee actuals Is rs m = (r, tr)"
  shows "filter (\<lambda>x. k \<le> x) tr = []"
proof -
  have "\<forall>x \<in> set tr. x < k"
    using exec_block_trace[of callee actuals Is rs m] assms by auto
  then show ?thesis by (auto simp: filter_empty_conv)
qed

lemma exec_op_done:
  "exec_op callee actuals i oc rs m = Done v m' \<Longrightarrow> is_return oc"
  by (induction callee actuals i oc rs m rule: exec_op.induct)
     (auto split: option.splits prod.splits if_splits)

lemma exec_op_return:
  "is_return oc \<Longrightarrow>
     (\<exists>v m'. exec_op callee actuals i oc rs m = Done v m') \<or>
     exec_op callee actuals i oc rs m = Bad"
  by (induction callee actuals i oc rs m rule: exec_op.induct)
     (auto split: option.splits)

lemma exec_block_return:
  "is_return (i_op T) \<Longrightarrow>
     (\<exists>v m'. exec_block callee actuals [T] rs m = (Done v m', [i_id T])) \<or>
     exec_block callee actuals [T] rs m = (Bad, [i_id T])"
  using exec_op_return[of "i_op T" callee actuals "i_id T" rs m] by auto

lemma straight_no_done:
  "no_return Is \<Longrightarrow> straight callee actuals Is rs m \<noteq> (Done v m', tr)"
proof (induction Is arbitrary: rs m tr)
  case Nil
  then show ?case by simp
next
  case (Cons I Is)
  then have nr: "\<not> is_return (i_op I)" and rest: "no_return Is"
    by (simp_all add: no_return_def)
  show ?case
  proof (cases "exec_op callee actuals (i_id I) (i_op I) rs m")
    case (Next rs1 m1)
    then show ?thesis using Cons.IH[OF rest, of rs1 m1] by (auto split: prod.splits)
  next
    case (Done v1 m1)
    then show ?thesis using nr exec_op_done by blast
  qed simp_all
qed

lemma exec_block_no_done:
  "no_return Is \<Longrightarrow> exec_block callee actuals Is rs m \<noteq> (Done v m', tr)"
proof (induction Is arbitrary: rs m tr)
  case Nil
  then show ?case by simp
next
  case (Cons I Is)
  then have nr: "\<not> is_return (i_op I)" and rest: "no_return Is"
    by (simp_all add: no_return_def)
  show ?case
  proof (cases "exec_op callee actuals (i_id I) (i_op I) rs m")
    case (Next rs1 m1)
    then show ?thesis using Cons.IH[OF rest, of rs1 m1] by (auto split: prod.splits)
  next
    case (Done v1 m1)
    then show ?thesis using nr exec_op_done by blast
  qed simp_all
qed

lemma straight_inc:
  "straight callee actuals (inc_seq g k) rs m =
     (Next (rs(k \<mapsto> m g, k + 1 \<mapsto> m g + 1)) (m(g := m g + 1)), [k, k + 1, k + 2])"
  by (simp add: inc_seq_def newInst_def setMetadata_def setAlignment_def)

lemma straight_dec:
  "straight callee actuals (dec_seq g k) rs m =
     (Next (rs(k + 3 \<mapsto> m g, k + 4 \<mapsto> m g - 1)) (m(g := m g - 1)), [k + 3, k + 4, k + 5])"
  by (simp add: dec_seq_def newInst_def setMetadata_def setAlignment_def)

lemma exit_block_done:
  assumes "\<forall>Inst \<in> set X. i_id Inst < k" and "no_return X" and "i_id T < k"
      and "exec_block callee actuals (X @ dec_seq g k @ [T]) rs m = (Done v m', tr)"
  shows "filter (\<lambda>x. k \<le> x) tr = [k + 3, k + 4, k + 5]"
proof -
  obtain r trX where sx: "straight callee actuals X rs m = (r, trX)"
    by (cases "straight callee actuals X rs m")
  have oldX: "filter (\<lambda>x. k \<le> x) trX = []"
    using old_trace_straight[OF assms(1) sx] .
  show ?thesis
  proof (cases r)
    case (Next rs1 m1)
    obtain r2 tr2 where t: "exec_block callee actuals [T]
        (rs1(k + 3 \<mapsto> m1 g, k + 4 \<mapsto> m1 g - 1)) (m1(g := m1 g - 1)) = (r2, tr2)"
      by (cases "exec_block callee actuals [T]
        (rs1(k + 3 \<mapsto> m1 g, k + 4 \<mapsto> m1 g - 1)) (m1(g := m1 g - 1))")
    have "filter (\<lambda>x. k \<le> x) tr2 = []"
      using old_trace_block[OF _ t, of k] assms(3) by simp
    moreover have "tr = trX @ [k + 3, k + 4, k + 5] @ tr2"
      using assms(4) sx Next t
      by (simp add: exec_block_append[of _ _ X] exec_block_append[of _ _ "dec_seq g k"]
                    straight_dec del: exec_block.simps)
    ultimately show ?thesis using oldX by simp
  next
    case (Done v1 m1)
    then show ?thesis using straight_no_done[OF assms(2)] sx by blast
  qed (use assms(4) sx in \<open>simp_all add: exec_block_append[of _ _ X]\<close>)
qed

lemma exit_block_jump:
  assumes "\<forall>Inst \<in> set X. i_id Inst < k" and "is_return (i_op T)"
      and "exec_block callee actuals (X @ dec_seq g k @ [T]) rs m = (Jump b rs' m', tr)"
  shows "filter (\<lambda>x. k \<le> x) tr = []"
proof -
  obtain r trX where sx: "straight callee actuals X rs m = (r, trX)"
    by (cases "straight callee actuals X rs m")
  have oldX: "filter (\<lambda>x. k \<le> x) trX = []"
    using old_trace_straight[OF assms(1) sx] .
  show ?thesis
  proof (cases r)
    case (Next rs1 m1)
    obtain r2 tr2 where t: "exec_block callee actuals [T]
        (rs1(k + 3 \<mapsto> m1 g, k + 4 \<mapsto> m1 g - 1)) (m1(g := m1 g - 1)) = (r2, tr2)"
      by (cases "exec_block callee actuals [T]
        (rs1(k + 3 \<mapsto> m1 g, k + 4 \<mapsto> m1 g - 1)) (m1(g := m1 g - 1))")
    have "r2 \<noteq> Jump b rs' m'"
      using exec_block_return[OF assms(2), of callee actuals
              "rs1(k + 3 \<mapsto> m1 g, k + 4 \<mapsto> m1 g - 1)" "m1(g := m1 g - 1)"] t
      by auto
    then show ?thesis
      using assms(3) sx Next t
      by (simp add: exec_block_append[of _ _ X] exec_block_append[of _ _ "dec_seq g k"]
                    straight_dec del: exec_block.simps)
  qed (use assms(3) sx oldX in \<open>simp_all add: exec_block_append[of _ _ X]\<close>)
qed

lemma shaped_block:
  assumes "(no_return Is \<and> (\<forall>Inst \<in> set Is. i_id Inst < k)) \<or>
           (\<exists>X T. Is = X @ dec_seq g k @ [T] \<and> no_return X \<and>
                  (\<forall>Inst \<in> set X. i_id Inst < k) \<and> is_return (i_op T) \<and> i_id T < k)"
  shows "exec_block callee actuals Is rs m = (Done v m', tr) \<Longrightarrow>
           filter (\<lambda>x. k \<le> x) tr = [k + 3, k + 4, k + 5]"
    and "exec_block callee actuals Is rs m = (Jump b rs' m'', tr) \<Longrightarrow>
           filter (\<lambda>x. k \<le> x) tr = []"
proof -
  show "filter (\<lambda>x. k \<le> x) tr = [k + 3, k + 4, k + 5]"
    if d: "exec_block callee actuals Is rs m = (Done v m', tr)"
    using assms
  proof
    assume "no_return Is \<and> (\<forall>Inst \<in> set Is. i_id Inst < k)"
    then show ?thesis using exec_block_no_done d by blast
  next
    assume "\<exists>X T. Is = X @ dec_seq g k @ [T] \<and> no_return X \<and>
                  (\<forall>Inst \<in> set X. i_id Inst < k) \<and> is_return (i_op T) \<and> i_id T < k"
    then obtain X T where "Is = X @ dec_seq g k @ [T]"
      and "\<forall>Inst \<in> set X. i_id Inst < k" and "no_return X" and "i_id T < k"
      by blast
    then show ?thesis
      using exit_block_done[of X k T callee actuals g rs m v m' tr] d by simp
  qed
  show "filter (\<lambda>x. k \<le> x) tr = []"
    if j: "exec_block callee actuals Is rs m = (Jump b rs' m'', tr)"
    using assms
  proof
    assume "no_return Is \<and> (\<forall>Inst \<in> set Is. i_id Inst < k)"
    then show ?thesis using old_trace_block j by blast
  next
    assume "\<exists>X T. Is = X @ dec_seq g k @ [T] \<and> no_return X \<and>
                  (\<forall>Inst \<in> set X. i_id Inst < k) \<and> is_return (i_op T) \<and> i_id T < k"
    then obtain X T where "Is = X @ dec_seq g k @ [T]"
      and "\<forall>Inst \<in> set X. i_id Inst < k" and "is_return (i_op T)"
      by blast
    then show ?thesis
      using exit_block_jump[of X k T callee actuals g rs m b rs' m'' tr] j by simp
  qed
qed

lemma returns_through_exit:
  assumes shapes: "\<forall>B \<in> set rest.
            (no_return (b_instrs B) \<and> (\<forall>Inst \<in> set (b_instrs B). i_id Inst < k)) \<or>
            (\<exists>X T. b_instrs B = X @ dec_seq g k @ [T] \<and> no_return X \<and>
                   (\<forall>Inst \<in> set X. i_id Inst < k) \<and> is_return (i_op T) \<and> i_id T < k)"
      and targets: "\<forall>B \<in> set rest. b_id E \<notin> set (block_targets B)"
  shows "b \<noteq> b_id E \<Longrightarrow>
         run_from callee actuals (E # rest) n b rs m = Some (Returned v m', tr) \<Longrightarrow>
         filter (\<lambda>x. k \<le> x) tr = [k + 3, k + 4, k + 5]"
proof (induction n arbitrary: b rs m tr)
  case 0
  then show ?case by simp
next
  case (Suc n)
  have f: "find (\<lambda>B. b_id B = b) (E # rest) = find (\<lambda>B. b_id B = b) rest"
    using Suc.prems(1) by auto
  show ?case
  proof (cases "find (\<lambda>B. b_id B = b) rest")
    case None
    then show ?thesis using Suc.prems(2) f by simp
  next
    case (Some B)
    then have B: "B \<in> set rest" by (rule find_in_set)
    obtain r tr1 where r: "exec_block callee actuals (b_instrs B) rs m = (r, tr1)"
      by (cases "exec_block callee actuals (b_instrs B) rs m")
    have shape: "(no_return (b_instrs B) \<and> (\<forall>Inst \<in> set (b_instrs B). i_id Inst < k)) \<or>
            (\<exists>X T. b_instrs B = X @ dec_seq g k @ [T] \<and> no_return X \<and>
                   (\<forall>Inst \<in> set X. i_id Inst < k) \<and> is_return (i_op T) \<and> i_id T < k)"
      using shapes B by blast
    show ?thesis
    proof (cases r)
      case (Jump b2 rs2 m2)
      have "b2 \<in> set (block_targets B)"
        using exec_block_jump_target[of callee actuals "b_instrs B" rs m b2 rs2 m2 tr1] r Jump
        by (simp add: block_targets_def)
      then have b2: "b2 \<noteq> b_id E" using targets B by blast
      obtain tr2 where run: "run_from callee actuals (E # rest) n b2 rs2 m2 = Some (Returned v m', tr2)"
        and tr: "tr = tr1 @ tr2"
        using Suc.prems(2) f Some r Jump by (auto split: option.splits)
      have old: "filter (\<lambda>x. k \<le> x) tr1 = []"
        using shaped_block(2)[OF shape] r Jump by blast
      show ?thesis using Suc.IH[OF b2 run] old tr by simp
    next
      case (Done v1 m1)
      then have tr: "tr = tr1" using Suc.prems(2) f Some r by simp
      show ?thesis using shaped_block(1)[OF shape] r Done tr by blast
    next
      case (Next rs2 m2)
      then show ?thesis using Suc.prems(2) f Some r by simp
    next
      case Bad
      then show ?thesis using Suc.prems(2) f Some r by simp
    next
      case NoRet
      then show ?thesis using Suc.prems(2) f Some r by simp
    qed
  qed
qed

lemma entry_block_inc:
  "exec_block callee actuals (inc_seq g k @ Is) rs m =
     (case exec_block callee actuals Is (rs(k \<mapsto> m g, k + 1 \<mapsto> m g + 1)) (m(g := m g + 1)) of
        (r, tr) \<Rightarrow> (r, [k, k + 1, k + 2] @ tr))"
  by (simp add: exec_block_append[of _ _ "inc_seq g k"] straight_inc del: exec_block.simps)

lemma bracketed_run:
  assumes entry: "b_instrs E = inc_seq g k @ Is"
      and shape: "(no_return Is \<and> (\<forall>Inst \<in> set Is. i_id Inst < k)) \<or>
           (\<exists>X T. Is = X @ dec_seq g k @ [T] \<and> no_return X \<and>
                  (\<forall>Inst \<in> set X. i_id Inst < k) \<and> is_return (i_op T) \<and> i_id T < k)"
      and shapes: "\<forall>B \<in> set rest.
            (no_return (b_instrs B) \<and> (\<forall>Inst \<in> set (b_instrs B). i_id Inst < k)) \<or>
            (\<exists>X T. b_instrs B = X @ dec_seq g k @ [T] \<and> no_return X \<and>
                   (\<forall>Inst \<in> set X. i_id Inst < k) \<and> is_return (i_op T) \<and> i_id T < k)"
      and targets: "\<forall>B \<in> set (E # rest). b_id E \<notin> set (block_targets B)"
      and run: "run_from callee actuals (E # rest) n (b_id E) rs m = Some (Returned v m', tr)"
  shows "filter (\<lambda>x. k \<le> x) tr = [k, k + 1, k + 2, k + 3, k + 4, k + 5]"
proof (cases n)
  case 0
  then show ?thesis using run by simp
next
  case (Suc n')
  let ?rs1 = "rs(k \<mapsto> m g, k + 1 \<mapsto> m g + 1)" and ?m1 = "m(g := m g + 1)"
  obtain r tr0 where r: "exec_block callee actuals Is ?rs1 ?m1 = (r, tr0)"
    by (cases "exec_block callee actuals Is ?rs1 ?m1")
  have e: "exec_block callee actuals (b_instrs E) rs m = (r, [k, k + 1, k + 2] @ tr0)"
    unfolding entry entry_block_inc using r by simp
  have pre: "filter (\<lambda>x. k \<le> x) [k, k + 1, k + 2] = [k, k + 1, k + 2]" by simp
  show ?thesis
  proof (cases r)
    case (Jump b2 rs2 m2)
    have "b2 \<in> set (concat (map (\<lambda>I. opcode_bids (i_op I)) Is))"
      using exec_block_jump_target[of callee actuals Is ?rs1 ?m1 b2 rs2 m2 tr0] r Jump by simp
    then have "b2 \<in> set (block_targets E)"
      by (simp add: block_targets_def entry)
    then have b2: "b2 \<noteq> b_id E" using targets by auto
    obtain tr2 where run2: "run_from callee actuals (E # rest) n' b2 rs2 m2 = Some (Returned v m', tr2)"
      and tr: "tr = ([k, k + 1, k + 2] @ tr0) @ tr2"
      using run e Jump unfolding Suc by (auto split: option.splits)
    have "\<forall>B \<in> set rest. b_id E \<notin> set (block_targets B)" using targets by simp
    from returns_through_exit[OF shapes this b2 run2]
    have "filter (\<lambda>x. k \<le> x) tr2 = [k + 3, k + 4, k + 5]" .
    moreover have "filter (\<lambda>x. k \<le> x) tr0 = []"
      using shaped_block(2)[OF shape] r Jump by blast
    ultimately show ?thesis unfolding tr by simp
  next
    case (Done v1 m1)
    then have tr: "tr = [k, k + 1, k + 2] @ tr0" using run e unfolding Suc by simp
    have "filter (\<lambda>x. k \<le> x) tr0 = [k + 3, k + 4, k + 5]"
      using shaped_block(1)[OF shape] r Done by blast
    then show ?thesis unfolding tr by simp
  next
    case (Next rs2 m2)
    then show ?thesis using run e unfolding Suc by simp
  next
    case Bad
    then show ?thesis using run e unfolding Suc by simp
  next
    case NoRet
    then show ?thesis using run e unfolding Suc by simp
  qed
qed

lemma targets_inc [simp]:
  "concat (map (\<lambda>I. opcode_bids (i_op I)) (inc_seq g k)) = []"
  by (simp add: inc_seq_def newInst_def setMetadata_def setAlignment_def)

lemma targets_dec [simp]:
  "concat (map (\<lambda>I. opcode_bids (i_op I)) (dec_seq g k)) = []"
  by (simp add: dec_seq_def newInst_def setMetadata_def setAlignment_def)

lemma old_ids:
  "B \<in> set (f_blocks F) \<Longrightarrow> Inst \<in> set (b_instrs B) \<Longrightarrow> i_id Inst < fresh_iid F"
  by (rule fresh_iid_gt[of B F Inst]) (simp_all add: instr_iids_def)

lemma omp_bracket:
  assumes r: "runOnFunction_omp g F = Inr F'"
      and se: "single_exit F"
      and np: "entry_has_no_predecessor F"
      and run: "invoke callee F' actuals m fuel = Some (Returned v m', tr)"
  shows "filter (\<lambda>x. fresh_iid F \<le> x) tr =
           [fresh_iid F, fresh_iid F + 1, fresh_iid F + 2,
            fresh_iid F + 3, fresh_iid F + 4, fresh_iid F + 5]"
proof -
  let ?k = "fresh_iid F"
  define bs where "bs = f_blocks F"
  define entryBB where "entryBB = hd bs"
  define exitBB where "exitBB = last bs"
  have ne: "bs \<noteq> []" and Ene: "b_instrs entryBB \<noteq> []" and Lne: "b_instrs exitBB \<noteq> []"
    using omp_Inr(1,2,3)[OF r] by (simp_all add: bs_def entryBB_def exitBB_def)
  have ids: "\<forall>B \<in> set bs. \<forall>Inst \<in> set (b_instrs B). i_id Inst < ?k"
    using old_ids by (auto simp: bs_def)
  have exit_in: "exitBB \<in> set bs" and entry_in: "entryBB \<in> set bs"
    using ne by (simp_all add: exitBB_def entryBB_def)
  have nr_butlast: "\<forall>B \<in> set (butlast bs). no_return (b_instrs B)"
    and nr_exit: "no_return (butlast (b_instrs exitBB))"
    and ret_exit: "is_return (i_op (last (b_instrs exitBB)))"
    using se by (simp_all add: single_exit_def bs_def exitBB_def list_all_iff)
  have e_not_target: "\<forall>B \<in> set bs. b_id entryBB \<notin> set (block_targets B)"
    using np by (auto simp: entry_has_no_predecessor_def bs_def entryBB_def)
  have exit_shape: "\<exists>X T. butlast (b_instrs exitBB) @ dec_seq g ?k @ [last (b_instrs exitBB)]
                          = X @ dec_seq g ?k @ [T] \<and> no_return X \<and>
                   (\<forall>Inst \<in> set X. i_id Inst < ?k) \<and> is_return (i_op T) \<and> i_id T < ?k"
  proof (intro exI conjI)
    show "butlast (b_instrs exitBB) @ dec_seq g ?k @ [last (b_instrs exitBB)] =
          butlast (b_instrs exitBB) @ dec_seq g ?k @ [last (b_instrs exitBB)]" by simp
    show "no_return (butlast (b_instrs exitBB))" by (rule nr_exit)
    show "\<forall>Inst \<in> set (butlast (b_instrs exitBB)). i_id Inst < ?k"
      using ids exit_in by (auto dest: in_set_butlastD)
    show "is_return (i_op (last (b_instrs exitBB)))" by (rule ret_exit)
    show "i_id (last (b_instrs exitBB)) < ?k"
      using ids exit_in Lne by (auto dest: last_in_set)
  qed
  have exit_targets:
    "concat (map (\<lambda>I. opcode_bids (i_op I))
        (butlast (b_instrs exitBB) @ dec_seq g ?k @ [last (b_instrs exitBB)])) =
     block_targets exitBB"
  proof -
    have "b_instrs exitBB = butlast (b_instrs exitBB) @ [last (b_instrs exitBB)]"
      using Lne by simp
    then have "block_targets exitBB =
                 concat (map (\<lambda>I. opcode_bids (i_op I))
                    (butlast (b_instrs exitBB) @ [last (b_instrs exitBB)]))"
      unfolding block_targets_def by simp
    then show ?thesis by simp
  qed
  show ?thesis
  proof (cases "tl bs = []")
    case True
    then have single: "bs = [entryBB]" and same: "exitBB = entryBB"
      using ne by (cases bs; simp add: entryBB_def exitBB_def)+
    define E' where "E' = entryBB\<lparr>b_instrs := inc_seq g ?k @ butlast (b_instrs entryBB)
                      @ dec_seq g ?k @ [last (b_instrs entryBB)]\<rparr>"
    have blocks': "f_blocks F' = [E']"
      using omp_Inr(5)[OF r] True by (simp add: E'_def bs_def entryBB_def)
    have entry: "b_instrs E' = inc_seq g ?k @ (butlast (b_instrs entryBB)
                      @ dec_seq g ?k @ [last (b_instrs entryBB)])"
      by (simp add: E'_def)
    have targets: "\<forall>B \<in> set (E' # []). b_id E' \<notin> set (block_targets B)"
      using e_not_target exit_targets entry_in
      by (simp add: E'_def block_targets_def same)
    have run': "run_from callee actuals (E' # []) fuel (b_id E') Map.empty m =
                  Some (Returned v m', tr)"
      using run by (simp add: invoke_def blocks')
    show ?thesis
      using bracketed_run[OF entry _ _ targets run'] exit_shape
      by (simp add: same)
  next
    case False
    define E' where "E' = entryBB\<lparr>b_instrs := inc_seq g ?k @ b_instrs entryBB\<rparr>"
    define L' where "L' = exitBB\<lparr>b_instrs := butlast (b_instrs exitBB)
                      @ dec_seq g ?k @ [last (b_instrs exitBB)]\<rparr>"
    have blocks': "f_blocks F' = E' # (butlast (tl bs) @ [L'])"
      using omp_Inr(6)[OF r] False by (simp add: E'_def L'_def bs_def entryBB_def exitBB_def)
    have entry: "b_instrs E' = inc_seq g ?k @ b_instrs entryBB"
      by (simp add: E'_def)
    have bs: "bs = entryBB # tl bs" using ne by (simp add: entryBB_def)
    have entry_butlast: "entryBB \<in> set (butlast bs)"
      using False by (subst bs) simp
    have mid: "set (butlast (tl bs)) \<subseteq> set (butlast bs)"
      using False by (subst (2) bs) auto
    have shape: "(no_return (b_instrs entryBB) \<and> (\<forall>Inst \<in> set (b_instrs entryBB). i_id Inst < ?k)) \<or>
           (\<exists>X T. b_instrs entryBB = X @ dec_seq g ?k @ [T] \<and> no_return X \<and>
                  (\<forall>Inst \<in> set X. i_id Inst < ?k) \<and> is_return (i_op T) \<and> i_id T < ?k)"
      using nr_butlast entry_butlast ids entry_in by blast
    have shapes: "\<forall>B \<in> set (butlast (tl bs) @ [L']).
            (no_return (b_instrs B) \<and> (\<forall>Inst \<in> set (b_instrs B). i_id Inst < ?k)) \<or>
            (\<exists>X T. b_instrs B = X @ dec_seq g ?k @ [T] \<and> no_return X \<and>
                   (\<forall>Inst \<in> set X. i_id Inst < ?k) \<and> is_return (i_op T) \<and> i_id T < ?k)"
    proof
      fix B assume "B \<in> set (butlast (tl bs) @ [L'])"
      then consider "B \<in> set (butlast (tl bs))" | "B = L'" by auto
      then show "(no_return (b_instrs B) \<and> (\<forall>Inst \<in> set (b_instrs B). i_id Inst < ?k)) \<or>
            (\<exists>X T. b_instrs B = X @ dec_seq g ?k @ [T] \<and> no_return X \<and>
                   (\<forall>Inst \<in> set X. i_id Inst < ?k) \<and> is_return (i_op T) \<and> i_id T < ?k)"
      proof cases
        case 1
        then have "B \<in> set (butlast bs)" using mid by blast
        then show ?thesis using nr_butlast ids by (auto dest: in_set_butlastD)
      next
        case 2
        then show ?thesis using exit_shape by (simp add: L'_def)
      qed
    qed
    have targets: "\<forall>B \<in> set (E' # (butlast (tl bs) @ [L'])). b_id E' \<notin> set (block_targets B)"
    proof
      fix B assume "B \<in> set (E' # (butlast (tl bs) @ [L']))"
      then consider "B = E'" | "B \<in> set (butlast (tl bs))" | "B = L'" by auto
      then show "b_id E' \<notin> set (block_targets B)"
      proof cases
        case 1
        then show ?thesis using e_not_target entry_in by (simp add: E'_def block_targets_def)
      next
        case 2
        then have "B \<in> set bs" using mid by (auto dest: in_set_butlastD)
        then show ?thesis using e_not_target by (simp add: E'_def)
      next
        case 3
        then show ?thesis
          using e_not_target exit_in exit_targets by (simp add: E'_def L'_def block_targets_def)
      qed
    qed
    have run': "run_from callee actuals (E' # (butlast (tl bs) @ [L'])) fuel (b_id E') Map.empty m =
                  Some (Returned v m', tr)"
      using run by (simp add: invoke_def blocks')
    show ?thesis
      using bracketed_run[OF entry shape shapes targets run'] .
  qed
qed

lemma omp_succeeds:
  assumes "f_blocks F \<noteq> []"
      and "b_instrs (hd (f_blocks F)) \<noteq> []"
      and "getTerminator (last (f_blocks F)) \<noteq> None"
  shows "\<exists>F'. runOnFunction_omp g F = Inr F'"
proof -
  obtain entryBB rest where b: "f_blocks F = entryBB # rest"
    using assms(1) by (cases "f_blocks F") auto
  obtain front others where e: "b_instrs entryBB = front # others"
    using assms(2) b by (cases "b_instrs entryBB") auto
  show ?thesis
  proof (cases rest)
    case Nil
    then show ?thesis
      using assms(3) b e
      by (auto simp: runOnFunction_omp_def Let_def getTerminator_def split: if_splits)
  next
    case (Cons r rs)
    then show ?thesis
      using assms(3) b e
      by (auto simp: runOnFunction_omp_def Let_def split: option.splits if_splits)
  qed
qed

lemma runOnFunction_omp_ok:
  assumes "i < length (m_functions M)"
      and "parallel_outlined (f_name (m_functions M ! i))"
      and "runOnFunction_omp status_name (m_functions M ! i) = Inr F'"
  shows "\<exists>M'. runOnFunction M i = Inr M' \<and> m_functions M' ! i = F'"
  using assms
  by (auto simp: runOnFunction_def Let_def parallel_outlined_def getNamedGlobal_name
           split: option.splits)

text \<open>
  Claim C4, as amended. Take a function classified as outlined parallel work (its
  name starts with \<^verbatim>\<open>.omp\<close> and has no excluded suffix) with a non-empty entry block
  and a terminator in its last block. The pass succeeds on it, and in the rewritten
  function the increment sequence (load of the flag, add of one, store) stands in
  front of the original instructions of the entry block and the decrement sequence
  (load, subtract one, store) immediately before the terminator of the last block;
  every other block is unchanged. When moreover the terminator of the last block is
  the function's only return instruction and no branch targets the entry block,
  every invocation that returns has executed the six inserted instructions exactly
  once each, the increment's three first and the decrement's three after them.
\<close>

theorem C4_bracket:
  fixes M :: llvm_module and i :: nat
  defines "F \<equiv> m_functions M ! i"
  defines "k \<equiv> fresh_iid F"
  defines "entryBB \<equiv> hd (f_blocks F)"
  defines "exitBB \<equiv> last (f_blocks F)"
  assumes "i < length (m_functions M)"
      and "parallel_outlined (f_name F)"
      and "f_blocks F \<noteq> []"
      and "b_instrs entryBB \<noteq> []"
      and "getTerminator exitBB \<noteq> None"
  shows "\<exists>M'. runOnFunction M i = Inr M'
          \<and> f_blocks (m_functions M' ! i) =
              (if tl (f_blocks F) = [] then
                 [entryBB\<lparr>b_instrs :=
                    inc_seq status_name k @ butlast (b_instrs entryBB)
                    @ dec_seq status_name k @ [last (b_instrs entryBB)]\<rparr>]
               else
                 entryBB\<lparr>b_instrs := inc_seq status_name k @ b_instrs entryBB\<rparr>
                 # butlast (tl (f_blocks F))
                 @ [exitBB\<lparr>b_instrs :=
                      butlast (b_instrs exitBB)
                      @ dec_seq status_name k @ [last (b_instrs exitBB)]\<rparr>])
          \<and> is_terminator (i_op (last (b_instrs exitBB)))
          \<and> (single_exit F \<and> entry_has_no_predecessor F \<and>
              invoke callee (m_functions M' ! i) actuals m fuel = Some (Returned v m', tr)
              \<longrightarrow> filter (\<lambda>x. k \<le> x) tr = [k, k + 1, k + 2, k + 3, k + 4, k + 5])"
proof -
  obtain F' where r: "runOnFunction_omp status_name F = Inr F'"
    using omp_succeeds assms(7,8,9) unfolding entryBB_def exitBB_def by blast
  obtain M' where run: "runOnFunction M i = Inr M'" and F': "m_functions M' ! i = F'"
    using runOnFunction_omp_ok[OF assms(5)] assms(6) r unfolding F_def by blast
  have blocks: "f_blocks F' =
              (if tl (f_blocks F) = [] then
                 [entryBB\<lparr>b_instrs :=
                    inc_seq status_name k @ butlast (b_instrs entryBB)
                    @ dec_seq status_name k @ [last (b_instrs entryBB)]\<rparr>]
               else
                 entryBB\<lparr>b_instrs := inc_seq status_name k @ b_instrs entryBB\<rparr>
                 # butlast (tl (f_blocks F))
                 @ [exitBB\<lparr>b_instrs :=
                      butlast (b_instrs exitBB)
                      @ dec_seq status_name k @ [last (b_instrs exitBB)]\<rparr>])"
    using omp_Inr(5,6)[OF r] unfolding entryBB_def exitBB_def k_def by simp
  have is_term: "is_terminator (i_op (last (b_instrs exitBB)))"
    using omp_Inr(4)[OF r] unfolding exitBB_def .
  have dyn: "single_exit F \<and> entry_has_no_predecessor F \<and>
              invoke callee F' actuals m fuel = Some (Returned v m', tr)
              \<longrightarrow> filter (\<lambda>x. k \<le> x) tr = [k, k + 1, k + 2, k + 3, k + 4, k + 5]"
    using omp_bracket[OF r] unfolding k_def by blast
  show ?thesis
  proof (intro exI[of _ M'] conjI)
    show "runOnFunction M i = Inr M'" by (rule run)
    show "f_blocks (m_functions M' ! i) =
              (if tl (f_blocks F) = [] then
                 [entryBB\<lparr>b_instrs :=
                    inc_seq status_name k @ butlast (b_instrs entryBB)
                    @ dec_seq status_name k @ [last (b_instrs entryBB)]\<rparr>]
               else
                 entryBB\<lparr>b_instrs := inc_seq status_name k @ b_instrs entryBB\<rparr>
                 # butlast (tl (f_blocks F))
                 @ [exitBB\<lparr>b_instrs :=
                      butlast (b_instrs exitBB)
                      @ dec_seq status_name k @ [last (b_instrs exitBB)]\<rparr>])"
      unfolding F' by (rule blocks)
    show "is_terminator (i_op (last (b_instrs exitBB)))" by (rule is_term)
    show "single_exit F \<and> entry_has_no_predecessor F \<and>
              invoke callee (m_functions M' ! i) actuals m fuel = Some (Returned v m', tr)
              \<longrightarrow> filter (\<lambda>x. k \<le> x) tr = [k, k + 1, k + 2, k + 3, k + 4, k + 5]"
      unfolding F' by (rule dyn)
  qed
qed

lemma ex_run_omp:
  "runOnFunction ex_module 0 =
     Inr \<lparr>m_globals = [extern_status_global], m_functions = [ex_omp_bracketed, ex_seq]\<rparr>"
  by (simp add: ex_module_def ex_omp_def ex_omp_bracketed_def inc_seq_def dec_seq_def ex_eval)

theorem C4_bracket_witness:
  "0 < length (m_functions ex_module)
   \<and> parallel_outlined (f_name (m_functions ex_module ! 0))
   \<and> f_blocks (m_functions ex_module ! 0) \<noteq> []
   \<and> b_instrs (hd (f_blocks (m_functions ex_module ! 0))) \<noteq> []
   \<and> getTerminator (last (f_blocks (m_functions ex_module ! 0))) \<noteq> None
   \<and> runOnFunction ex_module 0 =
       Inr \<lparr>m_globals = [extern_status_global], m_functions = [ex_omp_bracketed, ex_seq]\<rparr>
   \<and> single_exit (m_functions ex_module ! 0)
   \<and> entry_has_no_predecessor (m_functions ex_module ! 0)
   \<and> executed (invoke ex_callee ex_omp_bracketed [0, 0] (ex_memory 0) 1) = [1, 2, 3, 4, 5, 6, 0]
   \<and> status_after (invoke ex_callee ex_omp_bracketed [0, 0] (ex_memory 0) 1) = Some 0
   \<and> filter (\<lambda>x. fresh_iid (m_functions ex_module ! 0) \<le> x)
        (executed (invoke ex_callee ex_omp_bracketed [0, 0] (ex_memory 0) 1)) = [1, 2, 3, 4, 5, 6]"
proof -
  have F: "m_functions ex_module ! 0 = ex_omp" by (simp add: ex_module_def)
  have h: "0 < length (m_functions ex_module)" "parallel_outlined (f_name ex_omp)"
    "f_blocks ex_omp \<noteq> []" "b_instrs (hd (f_blocks ex_omp)) \<noteq> []"
    "getTerminator (last (f_blocks ex_omp)) \<noteq> None"
    "single_exit ex_omp" "entry_has_no_predecessor ex_omp"
    by (simp_all add: ex_module_def ex_omp_def parallel_outlined_def excluded_name_def
          endswith_def startswith_def getTerminator_def single_exit_def no_return_def
          entry_has_no_predecessor_def block_targets_def)
  have k: "fresh_iid ex_omp = 1"
    by (simp add: ex_omp_def fresh_iid_def fresh_def block_iids_def instr_iids_def)
  obtain m' where inv: "invoke ex_callee ex_omp_bracketed [0, 0] (ex_memory 0) 1 =
                     Some (Returned None m', [1, 2, 3, 4, 5, 6, 0])"
    and flag: "m' status_name = 0"
    by (simp add: invoke_def ex_omp_bracketed_def ex_omp_def inc_seq_def dec_seq_def
          newInst_def setMetadata_def setAlignment_def ex_memory_def)
  have "filter (\<lambda>x. 1 \<le> x) [1, 2, 3, 4, 5, 6, 0 :: nat] = [1, 2, 3, 4, 5, 6]"
    using C4_bracket [of 0 ex_module ex_callee "[0, 0]" "ex_memory 0" 1 None m'
                         "[1, 2, 3, 4, 5, 6, 0]"]
          h ex_run_omp inv
    unfolding F k by auto
  then show ?thesis
    using h ex_run_omp inv flag unfolding F k
    by (simp add: executed_def status_after_def)
qed

text \<open>
  The claim as stated promises one increment and one decrement per invocation for
  every outlined function with a terminator in its last block. \<open>ex_omp_two_exits\<close>
  has one, and a second return in an earlier block: invoked with a first argument of
  zero it executes the increment and returns through the earlier block, the flag
  left at 1. The claim also takes the \<^verbatim>\<open>.omp\<close> prefix alone as the condition;
  \<open>ex_omp_dtor\<close> has the prefix and an excluded suffix, and is left untouched.
\<close>

theorem C4_bracket_counterexample:
  "parallel_outlined (f_name ex_omp_two_exits)
   \<and> b_instrs (hd (f_blocks ex_omp_two_exits)) \<noteq> []
   \<and> getTerminator (last (f_blocks ex_omp_two_exits)) \<noteq> None
   \<and> executed (invoke ex_callee
        (m_functions (projr (runOnFunction \<lparr>m_globals = [], m_functions = [ex_omp_two_exits]\<rparr> 0)) ! 0)
        [0, 0] (ex_memory 0) 2) = [5, 6, 7, 0, 1, 2]
   \<and> status_after (invoke ex_callee
        (m_functions (projr (runOnFunction \<lparr>m_globals = [], m_functions = [ex_omp_two_exits]\<rparr> 0)) ! 0)
        [0, 0] (ex_memory 0) 2) = Some 1
   \<and> startswith (f_name ex_omp_dtor) ''.omp''
   \<and> runOnFunction \<lparr>m_globals = [], m_functions = [ex_omp_dtor]\<rparr> 0 =
       Inr \<lparr>m_globals = [], m_functions = [ex_omp_dtor]\<rparr>"
proof -
  have run: "runOnFunction \<lparr>m_globals = [], m_functions = [ex_omp_two_exits]\<rparr> 0 =
          Inr \<lparr>m_globals = [extern_status_global],
               m_functions = [ex_omp_two_exits\<lparr>f_blocks :=
                 [\<lparr>b_id = 0, b_name = ''entry'',
                   b_instrs = inc_seq status_name 5 @ b_instrs (hd (f_blocks ex_omp_two_exits))\<rparr>,
                  f_blocks ex_omp_two_exits ! 1,
                  \<lparr>b_id = 2, b_name = ''if.end'',
                   b_instrs = butlast (b_instrs (last (f_blocks ex_omp_two_exits)))
                     @ dec_seq status_name 5
                     @ [last (b_instrs (last (f_blocks ex_omp_two_exits)))]\<rparr>]\<rparr>]\<rparr>"
    by (simp add: ex_omp_two_exits_def inc_seq_def dec_seq_def ex_eval)
  show ?thesis
    unfolding run
    by (simp add: ex_omp_two_exits_def ex_omp_dtor_def ex_omp_def parallel_outlined_def
          getTerminator_def invoke_def inc_seq_def dec_seq_def
          newInst_def setMetadata_def setAlignment_def ex_memory_def
          executed_def status_after_def runOnFunction_def excluded_name_def endswith_def
          startswith_def status_name_def numeral_2_eq_2)
qed

end
